theory Spec2Isabelle
  imports Complex_Main "HOL-Library.AList"
begin

section \<open>Python strings and integers\<close>

text \<open>
  A Python \<open>str\<close> is a sequence of code points. The model takes the code points below
  256, so that a code point is a \<^typ>\<open>char\<close> and a \<open>str\<close> is a \<^typ>\<open>string\<close>.
  In that range \<open>str.isdigit\<close> holds of the ten decimal digits and of the three
  superscript digits U+00B2, U+00B3 and U+00B9, while \<open>int()\<close> accepts the decimal
  digits only.

  An exception is a value of the type \<open>error\<close>, with the text that \<open>str(e)\<close> gives. All
  of them are subclasses of \<open>Exception\<close>; \<open>ExternalError\<close> stands for those that the
  libraries raise. A function that may raise returns a sum, with the exception on the
  left.
\<close>

datatype error =
    ValueError string
  | FileNotFoundError string
  | FileExistsError string
  | NotADirectoryError string
  | IsADirectoryError string
  | TimeoutError string
  | CouldntDecodeError string
  | ZeroDivisionError string
  | ExternalError string

fun message :: "error \<Rightarrow> string" where
  "message (ValueError m) = m"
| "message (FileNotFoundError m) = m"
| "message (FileExistsError m) = m"
| "message (NotADirectoryError m) = m"
| "message (IsADirectoryError m) = m"
| "message (TimeoutError m) = m"
| "message (CouldntDecodeError m) = m"
| "message (ZeroDivisionError m) = m"
| "message (ExternalError m) = m"

definition isdecimal :: "char \<Rightarrow> bool" where
  "isdecimal c = (48 \<le> (of_char c :: nat) \<and> (of_char c :: nat) \<le> 57)"

definition isdigit :: "char \<Rightarrow> bool" where
  "isdigit c = (isdecimal c \<or> (of_char c :: nat) = 178 \<or> (of_char c :: nat) = 179
                \<or> (of_char c :: nat) = 185)"

text \<open>\<open>s.isdigit()\<close>: every character is a digit and there is at least one.\<close>

definition str_isdigit :: "string \<Rightarrow> bool" where
  "str_isdigit s = (s \<noteq> [] \<and> list_all isdigit s)"

definition digit_val :: "char \<Rightarrow> nat" where
  "digit_val c = of_char c - 48"

definition dec_val :: "string \<Rightarrow> nat" where
  "dec_val s = foldl (\<lambda>acc c. 10 * acc + digit_val c) 0 s"

text \<open>
  \<open>int(s)\<close> on a string \<open>s\<close> of digit characters (the only strings the program passes):
  the decimal value, or \<open>ValueError\<close> when a character is not a decimal digit.
\<close>

definition py_int :: "string \<Rightarrow> error + int" where
  "py_int s = (if s \<noteq> [] \<and> list_all isdecimal s then Inr (int (dec_val s))
               else Inl (ValueError s))"

definition digit_char :: "nat \<Rightarrow> char" where
  "digit_char d = ''0123456789'' ! d"

fun str_nat :: "nat \<Rightarrow> string" where
  "str_nat n = (if n < 10 then [digit_char n] else str_nat (n div 10) @ [digit_char (n mod 10)])"

declare str_nat.simps [simp del]

text \<open>\<open>str(i)\<close>, which is also what \<open>f'{i}'\<close> renders.\<close>

definition py_str :: "int \<Rightarrow> string" where
  "py_str i = (if i < 0 then CHR ''-'' # str_nat (nat (- i)) else str_nat (nat i))"

text \<open>\<open>c.lower()\<close> on the code points below 256.\<close>

definition char_lower :: "char \<Rightarrow> char" where
  "char_lower c =
     (let n = (of_char c :: nat) in
      if (65 \<le> n \<and> n \<le> 90) \<or> (192 \<le> n \<and> n \<le> 222 \<and> n \<noteq> 215) then char_of (n + 32) else c)"

definition lower :: "string \<Rightarrow> string" where
  "lower s = map char_lower s"

definition endswith :: "string \<Rightarrow> string \<Rightarrow> bool" where
  "endswith s suf = (length suf \<le> length s \<and> drop (length s - length suf) s = suf)"

definition startswith :: "string \<Rightarrow> string \<Rightarrow> bool" where
  "startswith s pre = (take (length pre) s = pre)"

section \<open>Paths (\<open>posixpath\<close>)\<close>

type_synonym path = string

text \<open>\<open>os.path.join(a, b)\<close>.\<close>

definition path_join :: "path \<Rightarrow> string \<Rightarrow> path" where
  "path_join a b =
     (if startswith b ''/'' then b
      else if a = [] \<or> endswith a ''/'' then a @ b
      else a @ ''/'' @ b)"

text \<open>\<open>os.path.basename(p)\<close>: what follows the last separator.\<close>

definition basename :: "path \<Rightarrow> string" where
  "basename p = rev (takeWhile (\<lambda>c. c \<noteq> CHR ''/'') (rev p))"

text \<open>
  \<open>os.path.splitext(p)\<close> on a name without separator: the split is at the last dot,
  unless only dots come before it.
\<close>

definition splitext :: "string \<Rightarrow> string \<times> string" where
  "splitext p =
     (if CHR ''.'' \<notin> set p then (p, [])
      else let ext = rev (takeWhile (\<lambda>c. c \<noteq> CHR ''.'') (rev p));
               root = take (length p - length ext - 1) p
           in if list_all (\<lambda>c. c = CHR ''.'') root then (p, [])
              else (root, drop (length root) p))"

text \<open>\<open>s.rstrip('/')\<close> and \<open>os.path.split(p)\<close>: the split is after the last separator.\<close>

definition rstrip_sep :: "string \<Rightarrow> string" where
  "rstrip_sep s = rev (dropWhile (\<lambda>c. c = CHR ''/'') (rev s))"

definition path_split :: "path \<Rightarrow> path \<times> string" where
  "path_split p =
     (let tail = basename p;
          head = take (length p - length tail) p
      in (if head \<noteq> [] \<and> \<not> list_all (\<lambda>c. c = CHR ''/'') head then rstrip_sep head else head,
          tail))"

text \<open>The directories above a path, the outermost first.\<close>

function ancestors :: "path \<Rightarrow> path list" where
  "ancestors p =
     (let head = fst (path_split p)
      in if head \<noteq> [] \<and> length head < length p then ancestors head @ [head] else [])"
  by pat_completeness auto
termination
  by (relation "measure length") auto

declare ancestors.simps [simp del]

text \<open>
  A plain path is a relative path in normal form: names joined by single separators,
  none of them empty, \<open>.\<close> or \<open>..\<close>. Two plain paths name the same node only when they
  are the same string.
\<close>

function plain_path :: "path \<Rightarrow> bool" where
  "plain_path p =
     (let head = fst (path_split p); tail = snd (path_split p)
      in if tail = [] \<or> tail = ''.'' \<or> tail = ''..'' then False
         else if head = [] then True
         else if p = head @ ''/'' @ tail then plain_path head
         else False)"
  by pat_completeness auto
termination
proof (relation "measure length")
  show "wf (measure (length :: path \<Rightarrow> nat))" by simp
next
  fix p :: path and head tail :: string
  assume "p = head @ ''/'' @ tail"
  then have "length p = length (head @ ''/'' @ tail)" by (rule arg_cong)
  then show "(head, p) \<in> measure length" by simp
qed

declare plain_path.simps [simp del]

text \<open>\<open>glob.has_magic(s)\<close>: the string holds a character that \<open>glob\<close> reads as a pattern.\<close>

definition has_magic :: "string \<Rightarrow> bool" where
  "has_magic s = list_ex (\<lambda>c. c = CHR ''*'' \<or> c = CHR ''?'' \<or> c = CHR ''['') s"

section \<open>The file store\<close>

text \<open>
  The file system is a finite association of paths with nodes: a directory, or a file
  with its content. The first entry for a path is the one that counts. A node is
  found under the string that is its plain path from the working directory, so the
  properties below are stated for plain paths.
\<close>

datatype 'c node = Dir | File 'c

type_synonym 'c fs = "(path \<times> 'c node) list"

definition path_exists :: "'c fs \<Rightarrow> path \<Rightarrow> bool" where
  "path_exists fs p = (map_of fs p \<noteq> None)"

definition isdir :: "'c fs \<Rightarrow> path \<Rightarrow> bool" where
  "isdir fs p = (case map_of fs p of Some Dir \<Rightarrow> True | _ \<Rightarrow> False)"

definition isfile :: "'c fs \<Rightarrow> path \<Rightarrow> bool" where
  "isfile fs p = (case map_of fs p of Some (File c) \<Rightarrow> True | _ \<Rightarrow> False)"

text \<open>
  \<open>os.mkdir(p)\<close> makes one directory: the path must be free and its parent must be a
  directory (the working directory when the parent is empty).
\<close>

definition mkdir :: "'c fs \<Rightarrow> path \<Rightarrow> error + 'c fs" where
  "mkdir fs p =
     (let parent = fst (path_split p)
      in if p = [] then Inl (FileNotFoundError p)
         else if path_exists fs p then Inl (FileExistsError p)
         else if parent = [] \<or> isdir fs parent then Inr (fs @ [(p, Dir)])
         else if path_exists fs parent \<or> list_ex (isfile fs) (ancestors p)
              then Inl (NotADirectoryError p)
         else Inl (FileNotFoundError p))"

text \<open>
  \<open>os.makedirs(name, exist_ok=exist_ok)\<close>, as the standard library defines it: the
  missing parents are made first, by recursion on the head of the path, then \<open>mkdir\<close>
  makes the leaf; an \<open>OSError\<close> of \<open>mkdir\<close> is passed over when \<open>exist_ok\<close> is set and
  the path is a directory. A call that raises leaves the store as it was.
\<close>

definition is_FileExistsError :: "error \<Rightarrow> bool" where
  "is_FileExistsError e = (case e of FileExistsError m \<Rightarrow> True | _ \<Rightarrow> False)"

definition try_mkdir :: "'c fs \<Rightarrow> path \<Rightarrow> bool \<Rightarrow> error + 'c fs" where
  "try_mkdir fs name exist_ok =
     (case mkdir fs name of
        Inl e \<Rightarrow> if \<not> exist_ok \<or> \<not> isdir fs name then Inl e else Inr fs
      | Inr fs' \<Rightarrow> Inr fs')"

definition head_tail :: "path \<Rightarrow> path \<times> string" where
  "head_tail name =
     (let (head, tail) = path_split name
      in if tail = [] then path_split head else (head, tail))"

function makedirs :: "'c fs \<Rightarrow> path \<Rightarrow> bool \<Rightarrow> error + 'c fs" where
  "makedirs fs name exist_ok =
     (let head = fst (head_tail name); tail = snd (head_tail name)
      in if head \<noteq> [] \<and> tail \<noteq> [] \<and> \<not> path_exists fs head then
           (case makedirs fs head exist_ok of
              Inl e \<Rightarrow>
                if is_FileExistsError e
                then (if tail = ''.'' then Inr fs else try_mkdir fs name exist_ok)
                else Inl e
            | Inr fs' \<Rightarrow> if tail = ''.'' then Inr fs' else try_mkdir fs' name exist_ok)
         else try_mkdir fs name exist_ok)"
  by pat_completeness auto
termination
proof (relation "measure (\<lambda>(fs, name, exist_ok). length name)")
  show "wf (measure (\<lambda>(fs :: 'c fs, name :: path, exist_ok :: bool). length name))" by simp
next
  fix fs :: "'c fs" and name :: path and exist_ok :: bool and head tail
  assume h: "head = fst (head_tail name)" and t: "tail = snd (head_tail name)"
     and c: "head \<noteq> [] \<and> tail \<noteq> [] \<and> \<not> path_exists fs head"
  have le: "length (fst (path_split q)) \<le> length q - length (snd (path_split q))" for q
  proof -
    have "length (rstrip_sep s) \<le> length s" for s
      unfolding rstrip_sep_def using length_dropWhile_le[of _ "rev s"] by simp
    from this[of "take (length q - length (basename q)) q"]
    have "length (rstrip_sep (take (length q - length (basename q)) q))
            \<le> length q - length (basename q)"
      by simp
    then show ?thesis
      unfolding path_split_def Let_def by simp
  qed
  have tl: "length (snd (path_split q)) \<le> length q" for q
    unfolding path_split_def Let_def basename_def
    using length_takeWhile_le[of _ "rev q"] by simp
  have "length head < length name"
  proof (cases "snd (path_split name) = []")
    case True
    then have ht: "head_tail name = path_split (fst (path_split name))"
      by (cases "path_split name") (simp add: head_tail_def)
    let ?q = "fst (path_split name)"
    have "snd (path_split ?q) \<noteq> []" using c t ht by simp
    then have "length (fst (path_split ?q)) < length ?q"
      using le[of ?q] tl[of ?q] by (cases "snd (path_split ?q)") auto
    moreover have "length ?q \<le> length name" using le[of name] by simp
    ultimately show ?thesis using h ht by simp
  next
    case False
    then have ht: "head_tail name = path_split name"
      by (cases "path_split name") (simp add: head_tail_def)
    have "length (fst (path_split name)) < length name"
      using le[of name] tl[of name] False by (cases "snd (path_split name)") auto
    then show ?thesis using h ht by simp
  qed
  then show "((fs, head, exist_ok), (fs, name, exist_ok))
             \<in> measure (\<lambda>(fs, name, exist_ok). length name)"
    by simp
qed

declare makedirs.simps [simp del]

definition makedirs_exist_ok :: "'c fs \<Rightarrow> path \<Rightarrow> error + 'c fs" where
  "makedirs_exist_ok fs p = makedirs fs p True"

text \<open>
  The directories that \<open>os.makedirs(d)\<close> has to make when \<open>d\<close> is free: \<open>d\<close> and the
  ancestors of \<open>d\<close> below the nearest one that exists, the outermost first.
\<close>

definition missing :: "'c fs \<Rightarrow> path \<Rightarrow> path list" where
  "missing fs d = rev (takeWhile (\<lambda>p. \<not> path_exists fs p) (rev (ancestors d @ [d])))"

text \<open>The name of \<open>p\<close> inside the directory \<open>d\<close>, when \<open>p\<close> is an entry of \<open>d\<close>.\<close>

definition child_name :: "path \<Rightarrow> path \<Rightarrow> string option" where
  "child_name d p =
     (let pre = path_join d [];
          n = drop (length pre) p
      in if take (length pre) p = pre \<and> n \<noteq> [] \<and> CHR ''/'' \<notin> set n then Some n else None)"

definition listdir :: "'c fs \<Rightarrow> path \<Rightarrow> string list" where
  "listdir fs d = remdups (List.map_filter (child_name d) (map fst fs))"

text \<open>\<open>fnmatch(name, 'vocal*.wav')\<close>, case sensitive as on POSIX.\<close>

definition fnmatch_vocal_wav :: "string \<Rightarrow> bool" where
  "fnmatch_vocal_wav n = (9 \<le> length n \<and> startswith n ''vocal'' \<and> endswith n ''.wav'')"

text \<open>
  \<open>glob.glob(os.path.join(d, 'vocal*.wav'))\<close> for a directory path \<open>d\<close> that \<open>glob\<close> reads
  literally, that is with \<open>has_magic d\<close> false: the matching entries of \<open>d\<close>, each joined
  to \<open>d\<close>; nothing when \<open>d\<close> cannot be listed. (A pattern character in \<open>d\<close> would make
  \<open>glob\<close> search the directories that match \<open>d\<close>; the properties of the counter are
  stated for the paths without one.)
\<close>

definition glob_vocal_wav :: "'c fs \<Rightarrow> path \<Rightarrow> path list" where
  "glob_vocal_wav fs d =
     (if isdir fs d then map (path_join d) (filter fnmatch_vocal_wav (listdir fs d)) else [])"

section \<open>The numbering counter (\<open>get_next_vocal_number\<close>)\<close>

text \<open>
  The loop over \<open>existing_files\<close>, with \<open>max_number\<close> as its state. \<open>int(number_part)\<close>
  is not guarded by a handler, so its \<open>ValueError\<close> ends the loop and the call.
\<close>

definition number_part :: "path \<Rightarrow> string" where
  "number_part file = filter isdigit (fst (splitext (basename file)))"

fun scan_files :: "path list \<Rightarrow> int \<Rightarrow> error + int" where
  "scan_files [] max_number = Inr max_number"
| "scan_files (file # existing_files) max_number =
     (if str_isdigit (number_part file) then
        (case py_int (number_part file) of
           Inl e \<Rightarrow> Inl e
         | Inr number \<Rightarrow>
             scan_files existing_files (if number > max_number then number else max_number))
      else scan_files existing_files max_number)"

definition get_next_vocal_number :: "'c fs \<Rightarrow> path \<Rightarrow> (error + int) \<times> 'c fs" where
  "get_next_vocal_number fs output_dir =
     (if \<not> path_exists fs output_dir then
        (case makedirs fs output_dir False of
           Inl e \<Rightarrow> (Inl e, fs)
         | Inr fs' \<Rightarrow> (Inr 1, fs'))
      else
        (case scan_files (glob_vocal_wav fs output_dir) 0 of
           Inl e \<Rightarrow> (Inl e, fs)
         | Inr max_number \<Rightarrow> (Inr (max_number + 1), fs)))"

definition entry_numbers :: "string list \<Rightarrow> int list" where
  "entry_numbers names =
     map (\<lambda>n. int (dec_val (number_part n)))
       (filter (\<lambda>n. fnmatch_vocal_wav n \<and> number_part n \<noteq> []) names)"

text \<open>
  The numbering counter as the specification words it: the entries of the form
  \<open>vocal<digits>.wav\<close> are listed, the numeric suffix of each is read, and the result is
  one more than the largest suffix, or 1 when no entry has that form.
\<close>

definition chunk_suffix :: "string \<Rightarrow> string option" where
  "chunk_suffix n =
     (let ds = take (length n - 9) (drop 5 n)
      in if n = ''vocal'' @ ds @ ''.wav'' \<and> ds \<noteq> [] \<and> list_all isdecimal ds then Some ds
         else None)"

definition spec_next_number :: "string list \<Rightarrow> int" where
  "spec_next_number entries =
     (let suffixes = List.map_filter chunk_suffix entries
      in if suffixes = [] then 1 else Max (set (map (\<lambda>ds. int (dec_val ds)) suffixes)) + 1)"

text \<open>
  \<open>os.remove(p)\<close> deletes a file; \<open>shutil.move(src, dst)\<close> renames \<open>src\<close> to \<open>dst\<close>,
  replacing a file that is at \<open>dst\<close>, or moves \<open>src\<close> into \<open>dst\<close> when \<open>dst\<close> is a
  directory; \<open>shutil.rmtree(p)\<close> deletes the directory \<open>p\<close> and everything below it.
  Writing to a path creates the file or replaces its content. Failures that come from
  permissions or devices are outside the model.
\<close>

definition os_remove :: "'c fs \<Rightarrow> path \<Rightarrow> error + 'c fs" where
  "os_remove fs p =
     (case map_of fs p of
        None \<Rightarrow> Inl (FileNotFoundError p)
      | Some Dir \<Rightarrow> Inl (IsADirectoryError p)
      | Some (File c) \<Rightarrow> Inr (AList.delete p fs))"

definition shutil_move :: "'c fs \<Rightarrow> path \<Rightarrow> path \<Rightarrow> error + 'c fs" where
  "shutil_move fs src dst =
     (case map_of fs src of
        None \<Rightarrow> Inl (FileNotFoundError src)
      | Some n \<Rightarrow>
          let real_dst = (if isdir fs dst then path_join dst (basename src) else dst)
          in if isdir fs dst \<and> path_exists fs real_dst then Inl (FileExistsError real_dst)
             else Inr (AList.update real_dst n (AList.delete src fs)))"

definition under :: "path \<Rightarrow> path \<Rightarrow> bool" where
  "under d p = (startswith p (path_join d []) \<and> p \<noteq> path_join d [])"

definition rmtree :: "'c fs \<Rightarrow> path \<Rightarrow> error + 'c fs" where
  "rmtree fs p =
     (if isdir fs p then Inr (filter (\<lambda>(q, n). q \<noteq> p \<and> \<not> under p q) fs)
      else if path_exists fs p then Inl (NotADirectoryError p)
      else Inl (FileNotFoundError p))"

definition write_file :: "'c fs \<Rightarrow> path \<Rightarrow> 'c \<Rightarrow> error + 'c fs" where
  "write_file fs p c =
     (if isdir fs p then Inl (IsADirectoryError p) else Inr (AList.update p (File c) fs))"

section \<open>The segmenter (\<open>split_wav_file\<close>)\<close>

text \<open>
  A file holds audio when it decodes as WAV, and holds the rows of text that were
  written to it. Audio is a list with one element for each millisecond, which is the
  unit in which \<open>pydub\<close> measures \<open>len(audio)\<close> and slices \<open>audio[start:end]\<close>.
\<close>

datatype 'a content = Content (audio: "'a list option") (rows: "string list list")

record 'a world =
  files :: "'a content fs"
  stdout :: "string list"

definition say :: "string \<Rightarrow> 'a world \<Rightarrow> 'a world" where
  "say line w = w\<lparr>stdout := stdout w @ [line]\<rparr>"

text \<open>\<open>f'{x:02}'\<close> for an integer \<open>x\<close>.\<close>

definition fmt02 :: "int \<Rightarrow> string" where
  "fmt02 x = (if 0 \<le> x \<and> x < 10 then CHR ''0'' # py_str x else py_str x)"

definition format_time :: "int \<Rightarrow> string" where
  "format_time ms =
     (let seconds = ms div 1000;
          minutes = seconds div 60;
          hours = minutes div 60;
          seconds = seconds mod 60;
          minutes = minutes mod 60
      in fmt02 hours @ '':'' @ fmt02 minutes @ '':'' @ fmt02 seconds)"

definition from_wav :: "'a content fs \<Rightarrow> path \<Rightarrow> error + 'a list" where
  "from_wav fs p =
     (case map_of fs p of
        None \<Rightarrow> Inl (FileNotFoundError p)
      | Some Dir \<Rightarrow> Inl (IsADirectoryError p)
      | Some (File c) \<Rightarrow>
          (case audio c of None \<Rightarrow> Inl (CouldntDecodeError p) | Some a \<Rightarrow> Inr a))"

text \<open>
  \<open>audio[start_ms:end_ms]\<close> for bounds that are not negative (the loops below produce no
  others): both bounds are cut down to the length of the audio.
\<close>

definition slice_ms :: "'a list \<Rightarrow> int \<Rightarrow> int \<Rightarrow> 'a list" where
  "slice_ms a start_ms end_ms =
     (let s = min start_ms (int (length a));
          e = min end_ms (int (length a))
      in take (nat (e - s)) (drop (nat s) a))"

text \<open>\<open>open(p, 'a')\<close> and \<open>csv_writer.writerow(row)\<close>.\<close>

definition open_append :: "'a content fs \<Rightarrow> path \<Rightarrow> error + 'a content fs" where
  "open_append fs p =
     (if isdir fs p then Inl (IsADirectoryError p)
      else if path_exists fs p then Inr fs
      else Inr (AList.update p (File (Content None [])) fs))"

definition writerow :: "'a content fs \<Rightarrow> path \<Rightarrow> string list \<Rightarrow> 'a content fs" where
  "writerow fs p row =
     (case map_of fs p of
        Some (File c) \<Rightarrow> AList.update p (File (Content (audio c) (rows c @ [row]))) fs
      | _ \<Rightarrow> fs)"

definition vocal_name :: "int \<Rightarrow> string" where
  "vocal_name current_number = ''vocal'' @ py_str current_number @ ''.wav''"

subsection \<open>\<open>vocal_only1.py\<close>\<close>

text \<open>
  The loop \<open>for i in range(num_chunks)\<close>, with \<open>current_number\<close> and the world as its
  state. The chunk length is an integer number of seconds, as in every call of the
  program.
\<close>

fun chunk_loop ::
  "'a list \<Rightarrow> path \<Rightarrow> path \<Rightarrow> int \<Rightarrow> nat list \<Rightarrow> int \<Rightarrow> 'a world \<Rightarrow> (error + int) \<times> 'a world"
where
  "chunk_loop a output_dir csv_file_path chunk_length_sec [] current_number w =
     (Inr current_number, w)"
| "chunk_loop a output_dir csv_file_path chunk_length_sec (i # rest) current_number w =
     (let start_ms = int i * chunk_length_sec * 1000;
          end_ms = start_ms + chunk_length_sec * 1000;
          end_ms = min end_ms (int (length a));
          chunk = slice_ms a start_ms end_ms;
          start_time_str = format_time start_ms;
          end_time_str = format_time end_ms;
          output_filename = vocal_name current_number;
          output_path = path_join output_dir output_filename
      in case write_file (files w) output_path (Content (Some chunk) []) of
           Inl e \<Rightarrow> (Inl e, w)
         | Inr fs' \<Rightarrow>
             chunk_loop a output_dir csv_file_path chunk_length_sec rest (current_number + 1)
               ((say (''Exported '' @ output_filename @ '' (from '' @ start_time_str @ '' to ''
                       @ end_time_str @ '')'') w)
                 \<lparr>files := writerow fs' csv_file_path
                             [output_filename, start_time_str, end_time_str]\<rparr>))"

definition split_wav_file ::
  "'a world \<Rightarrow> path \<Rightarrow> path \<Rightarrow> int \<Rightarrow> int \<Rightarrow> (error + int) \<times> 'a world"
where
  "split_wav_file w input_wav output_dir chunk_length_sec start_number =
     (case from_wav (files w) input_wav of
        Inl e \<Rightarrow> (Inl e, w)
      | Inr a \<Rightarrow>
          let total_length_ms = int (length a) in
          if chunk_length_sec * 1000 = 0 then (Inl (ZeroDivisionError ''integer division or modulo by zero''), w)
          else
            let num_chunks = total_length_ms div (chunk_length_sec * 1000)
                    + (if total_length_ms mod (chunk_length_sec * 1000) > 0 then 1 else 0)
            in case makedirs_exist_ok (files w) output_dir of
                 Inl e \<Rightarrow> (Inl e, w)
               | Inr fs1 \<Rightarrow>
                   let csv_file_path = path_join output_dir ''time_ranges.csv'';
                       file_exists = isfile fs1 csv_file_path
                   in case open_append fs1 csv_file_path of
                        Inl e \<Rightarrow> (Inl e, w\<lparr>files := fs1\<rparr>)
                      | Inr fs2 \<Rightarrow>
                          chunk_loop a output_dir csv_file_path chunk_length_sec
                            [0..<nat num_chunks] start_number
                            (w\<lparr>files :=
                                 (if \<not> file_exists
                                  then writerow fs2 csv_file_path [''Filename'', ''Start Time'', ''End Time'']
                                  else fs2)\<rparr>))"

subsection \<open>\<open>vocal_only.py\<close>\<close>

text \<open>
  Here the length is taken in seconds, \<open>len(audio) / 1000\<close>, and the number of chunks
  comes from \<open>//\<close> and \<open>%\<close> on that quotient. The source computes with floats; the model
  computes with the exact rational, which gives the same number of chunks for every
  length below \<open>2 ^ 53\<close> milliseconds. The end of a slice is not cut down by the
  program, but by the slice itself.
\<close>

definition floordiv :: "rat \<Rightarrow> rat \<Rightarrow> int" where
  "floordiv x y = \<lfloor>x / y\<rfloor>"

definition floatmod :: "rat \<Rightarrow> rat \<Rightarrow> rat" where
  "floatmod x y = x - y * of_int \<lfloor>x / y\<rfloor>"

fun chunk_loop_vocal_only ::
  "'a list \<Rightarrow> path \<Rightarrow> int \<Rightarrow> nat list \<Rightarrow> int \<Rightarrow> 'a world \<Rightarrow> (error + int) \<times> 'a world"
where
  "chunk_loop_vocal_only a output_dir chunk_length_sec [] current_number w =
     (Inr current_number, w)"
| "chunk_loop_vocal_only a output_dir chunk_length_sec (i # rest) current_number w =
     (let start_ms = int i * chunk_length_sec * 1000;
          end_ms = start_ms + chunk_length_sec * 1000;
          chunk = slice_ms a start_ms end_ms;
          output_filename = vocal_name current_number;
          output_path = path_join output_dir output_filename
      in case write_file (files w) output_path (Content (Some chunk) []) of
           Inl e \<Rightarrow> (Inl e, w)
         | Inr fs' \<Rightarrow>
             chunk_loop_vocal_only a output_dir chunk_length_sec rest (current_number + 1)
               ((say (''Exported '' @ output_filename) w)\<lparr>files := fs'\<rparr>))"

definition split_wav_file_vocal_only ::
  "'a world \<Rightarrow> path \<Rightarrow> path \<Rightarrow> int \<Rightarrow> int \<Rightarrow> (error + int) \<times> 'a world"
where
  "split_wav_file_vocal_only w input_wav output_dir chunk_length_sec start_number =
     (case from_wav (files w) input_wav of
        Inl e \<Rightarrow> (Inl e, w)
      | Inr a \<Rightarrow>
          let total_length_sec = rat_of_int (int (length a)) / 1000 in
          if chunk_length_sec = 0 then (Inl (ZeroDivisionError ''float floor division by zero''), w)
          else
            let num_chunks = floordiv total_length_sec (rat_of_int chunk_length_sec)
                    + (if floatmod total_length_sec (rat_of_int chunk_length_sec) > 0 then 1 else 0)
            in case makedirs_exist_ok (files w) output_dir of
                 Inl e \<Rightarrow> (Inl e, w)
               | Inr fs1 \<Rightarrow>
                   chunk_loop_vocal_only a output_dir chunk_length_sec
                     [0..<nat num_chunks] start_number (w\<lparr>files := fs1\<rparr>))"

text \<open>
  Notions used to state the properties of the segmenter: the chunk with index \<open>i\<close>, the
  row and the line written for it, and the condition that no directory stands at an
  entry of the output directory.
\<close>

definition chunk_of :: "'a list \<Rightarrow> int \<Rightarrow> nat \<Rightarrow> 'a list" where
  "chunk_of a chunk_length_sec i =
     slice_ms a (int i * chunk_length_sec * 1000)
       (min (int i * chunk_length_sec * 1000 + chunk_length_sec * 1000) (int (length a)))"

definition chunk_row :: "'a list \<Rightarrow> int \<Rightarrow> int \<Rightarrow> nat \<Rightarrow> string list" where
  "chunk_row a chunk_length_sec start_number i =
     [vocal_name (start_number + int i),
      format_time (int i * chunk_length_sec * 1000),
      format_time (min (int i * chunk_length_sec * 1000 + chunk_length_sec * 1000) (int (length a)))]"

definition chunk_line :: "'a list \<Rightarrow> int \<Rightarrow> int \<Rightarrow> nat \<Rightarrow> string" where
  "chunk_line a chunk_length_sec start_number i =
     ''Exported '' @ vocal_name (start_number + int i) @ '' (from ''
       @ format_time (int i * chunk_length_sec * 1000) @ '' to ''
       @ format_time (min (int i * chunk_length_sec * 1000 + chunk_length_sec * 1000) (int (length a)))
       @ '')''"

definition no_subdirs :: "'c fs \<Rightarrow> path \<Rightarrow> bool" where
  "no_subdirs fs d = list_all (\<lambda>(p, n). n = Dir \<longrightarrow> child_name d p = None) fs"

definition chunk_step :: "'a list \<Rightarrow> path \<Rightarrow> int \<Rightarrow> int \<Rightarrow> nat \<Rightarrow> 'a world \<Rightarrow> 'a world" where
  "chunk_step a d chunk_length_sec start_number i w =
     (say (chunk_line a chunk_length_sec start_number i) w)
       \<lparr>files := writerow
          (AList.update (path_join d (vocal_name (start_number + int i)))
             (File (Content (Some (chunk_of a chunk_length_sec i)) [])) (files w))
          (path_join d ''time_ranges.csv'') (chunk_row a chunk_length_sec start_number i)\<rparr>"

definition chunk_steps :: "'a list \<Rightarrow> path \<Rightarrow> int \<Rightarrow> int \<Rightarrow> nat \<Rightarrow> 'a world \<Rightarrow> 'a world" where
  "chunk_steps a d chunk_length_sec start_number n w =
     foldl (\<lambda>w i. chunk_step a d chunk_length_sec start_number i w) w [0..<n]"

text \<open>
  The file store once the time-range log has been opened, with its header when the log
  is new; \<open>fs1\<close> is the store in which the output directory has been made.
\<close>

definition log_opened :: "'a content fs \<Rightarrow> path \<Rightarrow> 'a content fs" where
  "log_opened fs1 d =
     (let csv_file_path = path_join d ''time_ranges.csv'';
          fs2 = (if path_exists fs1 csv_file_path then fs1
                 else AList.update csv_file_path (File (Content None [])) fs1)
      in if isfile fs1 csv_file_path then fs2
         else writerow fs2 csv_file_path [''Filename'', ''Start Time'', ''End Time''])"

text \<open>The number of chunks as the specification words it: \<open>ceil(T / L)\<close>, both in milliseconds.\<close>

definition chunk_count :: "'a list \<Rightarrow> int \<Rightarrow> nat" where
  "chunk_count a chunk_length_sec =
     nat \<lceil>rat_of_int (int (length a)) / rat_of_int (chunk_length_sec * 1000)\<rceil>"

definition chunk_step_vocal_only ::
  "'a list \<Rightarrow> path \<Rightarrow> int \<Rightarrow> int \<Rightarrow> nat \<Rightarrow> 'a world \<Rightarrow> 'a world" where
  "chunk_step_vocal_only a d chunk_length_sec start_number i w =
     (say (''Exported '' @ vocal_name (start_number + int i)) w)
       \<lparr>files := AList.update (path_join d (vocal_name (start_number + int i)))
          (File (Content (Some (chunk_of a chunk_length_sec i)) [])) (files w)\<rparr>"

definition chunk_steps_vocal_only ::
  "'a list \<Rightarrow> path \<Rightarrow> int \<Rightarrow> int \<Rightarrow> nat \<Rightarrow> 'a world \<Rightarrow> 'a world" where
  "chunk_steps_vocal_only a d chunk_length_sec start_number n w =
     foldl (\<lambda>w i. chunk_step_vocal_only a d chunk_length_sec start_number i w) w [0..<n]"

text \<open>The value of the variable \<open>num_chunks\<close> of \<open>split_wav_file\<close>.\<close>

definition num_chunks :: "'a list \<Rightarrow> int \<Rightarrow> int" where
  "num_chunks a chunk_length_sec =
     int (length a) div (chunk_length_sec * 1000)
       + (if int (length a) mod (chunk_length_sec * 1000) > 0 then 1 else 0)"

text \<open>What a path holds: the audio of the file there, and the rows written to it.\<close>

definition audio_at :: "'a world \<Rightarrow> path \<Rightarrow> 'a list option" where
  "audio_at w p = (case map_of (files w) p of Some (File c) \<Rightarrow> audio c | _ \<Rightarrow> None)"

definition rows_at :: "'a world \<Rightarrow> path \<Rightarrow> string list list" where
  "rows_at w p = (case map_of (files w) p of Some (File c) \<Rightarrow> rows c | _ \<Rightarrow> [])"

section \<open>The triage sweeper (\<open>remove_file.py\<close>)\<close>

text \<open>
  A file is a WAV file with its number of frames and its frame rate, or something that
  the \<open>wave\<close> module rejects. The duration is the quotient of the two numbers; the source
  computes it as a float, the model as the exact rational. The program prints one line
  for each thing it does; the model records what the line reports.
\<close>

datatype wave_file = Wave nat nat | NotWave

datatype report =
    Error_reading path
  | Unexpected_error path
  | Skipping path
  | Deleted path rat
  | Failed_to_delete path
  | Moved path path rat
  | Failed_to_move path
  | Not_a_directory path
  | Operation_completed

record sweep =
  store :: "wave_file fs"
  printed :: "report list"
  vocal_counter :: int

text \<open>
  \<open>get_wav_duration\<close> returns \<open>None\<close> whenever reading raises: \<open>wave.Error\<close> for a file
  that is not WAV, and any other exception for a path that cannot be opened or for a
  frame rate of 0, where the division raises.
\<close>

definition get_wav_duration :: "wave_file fs \<Rightarrow> path \<Rightarrow> rat option \<times> report list" where
  "get_wav_duration fs filepath =
     (case map_of fs filepath of
        Some (File (Wave frames rate)) \<Rightarrow>
          if rate = 0 then (None, [Unexpected_error filepath])
          else (Some (rat_of_nat frames / rat_of_nat rate), [])
      | Some (File NotWave) \<Rightarrow> (None, [Error_reading filepath])
      | _ \<Rightarrow> (None, [Unexpected_error filepath]))"

text \<open>
  The loop \<open>while os.path.exists(new_filepath)\<close>, which advances \<open>vocal_counter\<close>; its
  result is the value of the counter when the loop ends, and \<open>None\<close> if it never ends.
\<close>

partial_function (option) free_number :: "'c fs \<Rightarrow> path \<Rightarrow> int \<Rightarrow> int option" where
  "free_number fs final_folder_path counter =
     (if path_exists fs (path_join final_folder_path (vocal_name counter))
      then free_number fs final_folder_path (counter + 1)
      else Some counter)"

declare free_number.simps [code]

text \<open>The body of the loop over the files, for a file whose name ends in \<open>.wav\<close>.\<close>

definition process_file :: "rat \<Rightarrow> path \<Rightarrow> sweep \<Rightarrow> path \<Rightarrow> sweep option" where
  "process_file min_duration final_folder_path st filepath =
     (case get_wav_duration (store st) filepath of
        (None, msgs) \<Rightarrow> Some (st\<lparr>printed := printed st @ msgs @ [Skipping filepath]\<rparr>)
      | (Some duration, msgs) \<Rightarrow>
          if duration < min_duration \<or> duration > min_duration then
            (case os_remove (store st) filepath of
               Inr fs' \<Rightarrow>
                 Some (st\<lparr>store := fs', printed := printed st @ msgs @ [Deleted filepath duration]\<rparr>)
             | Inl e \<Rightarrow>
                 Some (st\<lparr>printed := printed st @ msgs @ [Failed_to_delete filepath]\<rparr>))
          else
            (case free_number (store st) final_folder_path (vocal_counter st) of
               None \<Rightarrow> None
             | Some counter \<Rightarrow>
                 let new_filepath = path_join final_folder_path (vocal_name counter)
                 in case shutil_move (store st) filepath new_filepath of
                      Inr fs' \<Rightarrow>
                        Some (st\<lparr>store := fs',
                                 printed := printed st @ msgs @ [Moved filepath new_filepath duration],
                                 vocal_counter := counter + 1\<rparr>)
                    | Inl e \<Rightarrow>
                        Some (st\<lparr>printed := printed st @ msgs @ [Failed_to_move filepath],
                                 vocal_counter := counter\<rparr>)))"

fun for_files :: "rat \<Rightarrow> path \<Rightarrow> path \<Rightarrow> string list \<Rightarrow> sweep \<Rightarrow> sweep option" where
  "for_files min_duration final_folder_path dirpath [] st = Some st"
| "for_files min_duration final_folder_path dirpath (file # rest) st =
     (if endswith (lower file) ''.wav'' then
        (case process_file min_duration final_folder_path st (path_join dirpath file) of
           None \<Rightarrow> None
         | Some st' \<Rightarrow> for_files min_duration final_folder_path dirpath rest st')
      else for_files min_duration final_folder_path dirpath rest st)"

text \<open>
  The loop over \<open>os.walk(source_directory)\<close>. The traversal is not computed from the
  store: the sequence of the pairs \<open>(root, files)\<close> it yields is given. Paths are absolute
  and normalised, so that \<open>os.path.abspath\<close> changes nothing.
\<close>

fun for_walk :: "rat \<Rightarrow> path \<Rightarrow> (path \<times> string list) list \<Rightarrow> sweep \<Rightarrow> sweep option" where
  "for_walk min_duration final_folder_path [] st = Some st"
| "for_walk min_duration final_folder_path ((dirpath, fls) # rest) st =
     (if dirpath = final_folder_path then for_walk min_duration final_folder_path rest st
      else (case for_files min_duration final_folder_path dirpath fls st of
              None \<Rightarrow> None
            | Some st' \<Rightarrow> for_walk min_duration final_folder_path rest st'))"

text \<open>
  \<open>process_wav_files\<close> ends with \<open>sys.exit(1)\<close>, with an exception that nothing catches,
  or at its last line.
\<close>

datatype outcome = Exited int "report list" | Raised error | Completed sweep

definition process_wav_files ::
  "(path \<times> string list) list \<Rightarrow> wave_file fs \<Rightarrow> path \<Rightarrow> rat \<Rightarrow> path \<Rightarrow> outcome option"
where
  "process_wav_files walk fs source_directory min_duration final_folder_path =
     (if \<not> isdir fs source_directory then Some (Exited 1 [Not_a_directory source_directory])
      else case makedirs_exist_ok fs final_folder_path of
             Inl e \<Rightarrow> Some (Raised e)
           | Inr fs1 \<Rightarrow>
               (case for_walk min_duration final_folder_path walk
                       \<lparr>store = fs1, printed = [], vocal_counter = 1\<rparr> of
                  None \<Rightarrow> None
                | Some st \<Rightarrow> Some (Completed (st\<lparr>printed := printed st @ [Operation_completed]\<rparr>))))"

section \<open>The pipeline driver (\<open>process_youtube_video\<close>)\<close>

text \<open>
  The download (\<open>yt_dlp\<close>) and the separation (\<open>spleeter\<close>) are not part of the program:
  each is a parameter that changes the world in some way and may raise. Sleeping has no
  effect. While \<open>wait_for_file\<close> polls, nothing else runs, so the file is there at once
  or the wait ends with \<open>TimeoutError\<close>.
\<close>

type_synonym 'a external = "'a world \<Rightarrow> error option \<times> 'a world"

definition quoted :: "string \<Rightarrow> string" where
  "quoted s = [CHR 0x27] @ s @ [CHR 0x27]"

definition download_audio ::
  "(string \<Rightarrow> path \<Rightarrow> 'a external) \<Rightarrow> 'a world \<Rightarrow> string \<Rightarrow> path \<Rightarrow> (error + path) \<times> 'a world"
where
  "download_audio ydl w youtube_url output_dir =
     (case makedirs_exist_ok (files w) output_dir of
        Inl e \<Rightarrow> (Inl e, w)
      | Inr fs1 \<Rightarrow>
          (case ydl youtube_url output_dir (w\<lparr>files := fs1\<rparr>) of
             (Some e, w2) \<Rightarrow> (Inl e, w2)
           | (None, w2) \<Rightarrow>
               let downloaded_mp3 = path_join output_dir ''downloaded_audio.mp3''
               in if \<not> path_exists (files w2) downloaded_mp3
                  then (Inl (FileNotFoundError (downloaded_mp3 @ '' not found after download.'')), w2)
                  else (Inr downloaded_mp3, w2)))"

definition construct_vocals_path :: "path \<Rightarrow> path \<Rightarrow> path" where
  "construct_vocals_path input_audio output_dir =
     (let base_filename = fst (splitext (basename input_audio))
      in path_join (path_join output_dir base_filename) ''vocals.wav'')"

definition wait_for_file :: "'a world \<Rightarrow> path \<Rightarrow> int \<Rightarrow> error + unit" where
  "wait_for_file w filepath timeout =
     (if path_exists (files w) filepath then Inr ()
      else Inl (TimeoutError (''File '' @ filepath @ '' not found within '' @ py_str timeout
                                @ '' seconds.'')))"

text \<open>\<open>extract_vocals\<close> of \<open>vocal_only1.py\<close>, which waits for the file, and of \<open>vocal_only.py\<close>.\<close>

definition extract_vocals ::
  "(path \<Rightarrow> path \<Rightarrow> 'a external) \<Rightarrow> 'a world \<Rightarrow> path \<Rightarrow> path \<Rightarrow> (error + path) \<times> 'a world"
where
  "extract_vocals separate_to_file w input_audio output_dir =
     (case separate_to_file input_audio output_dir w of
        (Some e, w1) \<Rightarrow> (Inl e, w1)
      | (None, w1) \<Rightarrow>
          let vocals_wav_path = construct_vocals_path input_audio output_dir
          in case wait_for_file w1 vocals_wav_path 30 of
               Inl e \<Rightarrow> (Inl e, w1)
             | Inr u \<Rightarrow>
                 if \<not> path_exists (files w1) vocals_wav_path
                 then (Inl (FileNotFoundError (''Vocals WAV file not found at '' @ vocals_wav_path @ ''.'')), w1)
                 else (Inr vocals_wav_path, w1))"

definition extract_vocals_vocal_only ::
  "(path \<Rightarrow> path \<Rightarrow> 'a external) \<Rightarrow> 'a world \<Rightarrow> path \<Rightarrow> path \<Rightarrow> (error + path) \<times> 'a world"
where
  "extract_vocals_vocal_only separate_to_file w input_audio output_dir =
     (case separate_to_file input_audio output_dir w of
        (Some e, w1) \<Rightarrow> (Inl e, w1)
      | (None, w1) \<Rightarrow>
          let base_filename = fst (splitext (basename input_audio));
              vocals_wav_path = path_join (path_join output_dir base_filename) ''vocals.wav''
          in if \<not> path_exists (files w1) vocals_wav_path
             then (Inl (FileNotFoundError (''Vocals WAV file not found at '' @ vocals_wav_path @ ''.'')), w1)
             else (Inr vocals_wav_path, w1))"

definition clean_up :: "'a world \<Rightarrow> path \<Rightarrow> 'a world" where
  "clean_up w temp_dir =
     (if path_exists (files w) temp_dir then
        (case rmtree (files w) temp_dir of
           Inr fs' \<Rightarrow> say (''Cleaned up temporary files in '' @ quoted temp_dir @ ''.'') (w\<lparr>files := fs'\<rparr>)
         | Inl e \<Rightarrow> say (''Failed to clean up temporary files: '' @ message e) w)
      else w)"

text \<open>The world once the lines that come before each step have been printed.\<close>

definition world_started :: "'a world \<Rightarrow> 'a content fs \<Rightarrow> string \<Rightarrow> 'a world" where
  "world_started w fs1 youtube_url =
     say ''  Downloading audio from YouTube...''
       (say (''\<newline>Processing URL: '' @ youtube_url) (w\<lparr>files := fs1\<rparr>))"

definition world_downloaded :: "'a world \<Rightarrow> 'a world" where
  "world_downloaded w2 = say ''  Extracting vocals...'' (say ''  Audio downloaded successfully.'' w2)"

definition world_extracted :: "string \<Rightarrow> 'a world \<Rightarrow> path \<Rightarrow> 'a world" where
  "world_extracted seconds w4 vocals_wav_path =
     say (''  Splitting the WAV file into '' @ seconds @ ''-second segments...'')
       (say (''  Vocals extracted and saved to '' @ quoted vocals_wav_path @ ''.'') w4)"

text \<open>
  The suite of the \<open>try\<close> statement of \<open>process_youtube_video\<close>: its result is the new
  \<open>current_number\<close>, or the exception that ends it, with the world at that point.
\<close>

definition process_youtube_video_try ::
  "(string \<Rightarrow> path \<Rightarrow> 'a external) \<Rightarrow> (path \<Rightarrow> path \<Rightarrow> 'a external) \<Rightarrow> 'a world \<Rightarrow> string \<Rightarrow> path \<Rightarrow> int
     \<Rightarrow> (error + int) \<times> 'a world"
where
  "process_youtube_video_try ydl separate_to_file w youtube_url split_output_dir current_number =
     (let temp_dir = ''temp_processing''
      in case makedirs_exist_ok (files w) temp_dir of
           Inl e \<Rightarrow> (Inl e, w)
         | Inr fs1 \<Rightarrow>
             (case download_audio ydl
                     (world_started w fs1 youtube_url)
                     youtube_url (path_join temp_dir ''audio'') of
                (Inl e, w2) \<Rightarrow> (Inl e, w2)
              | (Inr downloaded_mp3, w2) \<Rightarrow>
                  (case extract_vocals separate_to_file
                          (world_downloaded w2)
                          downloaded_mp3 (path_join temp_dir ''vocals'') of
                     (Inl e, w4) \<Rightarrow> (Inl e, w4)
                   | (Inr vocals_wav_path, w4) \<Rightarrow>
                       (case split_wav_file
                               (world_extracted ''5'' w4 vocals_wav_path)
                               vocals_wav_path split_output_dir 5 current_number of
                          (Inl e, w6) \<Rightarrow> (Inl e, w6)
                        | (Inr n, w6) \<Rightarrow> (Inr n, say ''  Splitting completed successfully.'' w6)))))"

definition error_line :: "string \<Rightarrow> error \<Rightarrow> string" where
  "error_line youtube_url e = ''  An error occurred while processing '' @ youtube_url @ '': '' @ message e"

definition process_youtube_video ::
  "(string \<Rightarrow> path \<Rightarrow> 'a external) \<Rightarrow> (path \<Rightarrow> path \<Rightarrow> 'a external) \<Rightarrow> 'a world \<Rightarrow> string \<Rightarrow> path \<Rightarrow> int
     \<Rightarrow> int \<times> 'a world"
where
  "process_youtube_video ydl separate_to_file w youtube_url split_output_dir current_number =
     (case process_youtube_video_try ydl separate_to_file w youtube_url split_output_dir current_number of
        (Inr n, w1) \<Rightarrow> (n, clean_up w1 ''temp_processing'')
      | (Inl e, w1) \<Rightarrow> (current_number, clean_up (say (error_line youtube_url e) w1) ''temp_processing''))"

text \<open>The same for \<open>vocal_only.py\<close>, with chunks of 30 seconds.\<close>

definition process_youtube_video_try_vocal_only ::
  "(string \<Rightarrow> path \<Rightarrow> 'a external) \<Rightarrow> (path \<Rightarrow> path \<Rightarrow> 'a external) \<Rightarrow> 'a world \<Rightarrow> string \<Rightarrow> path \<Rightarrow> int
     \<Rightarrow> (error + int) \<times> 'a world"
where
  "process_youtube_video_try_vocal_only ydl separate_to_file w youtube_url split_output_dir current_number =
     (let temp_dir = ''temp_processing''
      in case makedirs_exist_ok (files w) temp_dir of
           Inl e \<Rightarrow> (Inl e, w)
         | Inr fs1 \<Rightarrow>
             (case download_audio ydl
                     (world_started w fs1 youtube_url)
                     youtube_url (path_join temp_dir ''audio'') of
                (Inl e, w2) \<Rightarrow> (Inl e, w2)
              | (Inr downloaded_mp3, w2) \<Rightarrow>
                  (case extract_vocals_vocal_only separate_to_file
                          (world_downloaded w2)
                          downloaded_mp3 (path_join temp_dir ''vocals'') of
                     (Inl e, w4) \<Rightarrow> (Inl e, w4)
                   | (Inr vocals_wav_path, w4) \<Rightarrow>
                       (case split_wav_file_vocal_only
                               (world_extracted ''30'' w4 vocals_wav_path)
                               vocals_wav_path split_output_dir 30 current_number of
                          (Inl e, w6) \<Rightarrow> (Inl e, w6)
                        | (Inr n, w6) \<Rightarrow> (Inr n, say ''  Splitting completed successfully.'' w6)))))"

definition process_youtube_video_vocal_only ::
  "(string \<Rightarrow> path \<Rightarrow> 'a external) \<Rightarrow> (path \<Rightarrow> path \<Rightarrow> 'a external) \<Rightarrow> 'a world \<Rightarrow> string \<Rightarrow> path \<Rightarrow> int
     \<Rightarrow> int \<times> 'a world"
where
  "process_youtube_video_vocal_only ydl separate_to_file w youtube_url split_output_dir current_number =
     (case process_youtube_video_try_vocal_only ydl separate_to_file w youtube_url split_output_dir
             current_number of
        (Inr n, w1) \<Rightarrow> (n, clean_up w1 ''temp_processing'')
      | (Inl e, w1) \<Rightarrow> (current_number, clean_up (say (error_line youtube_url e) w1) ''temp_processing''))"

section \<open>Properties of the file store\<close>

subsection \<open>Plain paths and their ancestors\<close>

lemma plain_path_split:
  assumes "plain_path p"
  obtains h t where "path_split p = (h, t)" "t \<noteq> []" "t \<noteq> ''.''" "t \<noteq> ''..''"
    "h = [] \<or> (p = h @ ''/'' @ t \<and> plain_path h)"
proof -
  obtain h t where ht: "path_split p = (h, t)" by (cases "path_split p")
  from assms have "t \<noteq> [] \<and> t \<noteq> ''.'' \<and> t \<noteq> ''..'' \<and> (h = [] \<or> (p = h @ ''/'' @ t \<and> plain_path h))"
    by (subst (asm) plain_path.simps) (simp add: ht Let_def split: if_splits)
  with ht that show thesis by blast
qed

lemma plain_path_nonempty: "plain_path p \<Longrightarrow> p \<noteq> []"
  by (subst (asm) plain_path.simps) (auto simp: path_split_def basename_def Let_def)

lemma head_tail_plain:
  assumes "path_split p = (h, t)" "t \<noteq> []"
  shows "head_tail p = (h, t)"
  using assms by (simp add: head_tail_def)

lemma ancestors_top:
  assumes "path_split p = ([], t)"
  shows "ancestors p = []"
  using assms by (subst ancestors.simps) simp

lemma ancestors_step:
  assumes "path_split p = (h, t)" "h \<noteq> []" "p = h @ ''/'' @ t"
  shows "ancestors p = ancestors h @ [h]"
proof -
  have "length p = length (h @ ''/'' @ t)" using assms(3) by (rule arg_cong)
  then have "length h < length p" by simp
  then show ?thesis using assms(1,2) by (subst ancestors.simps) simp
qed

lemma ancestors_shorter: "q \<in> set (ancestors p) \<Longrightarrow> length q < length p"
proof (induction p arbitrary: q rule: ancestors.induct)
  case (1 p)
  let ?h = "fst (path_split p)"
  show ?case
  proof (cases "?h \<noteq> [] \<and> length ?h < length p")
    case True
    then have a: "ancestors p = ancestors ?h @ [?h]" by (subst ancestors.simps) (simp add: Let_def)
    from "1.prems" a have "q \<in> set (ancestors ?h) \<or> q = ?h" by auto
    then show ?thesis
    proof
      assume "q \<in> set (ancestors ?h)"
      then have "length q < length ?h" using "1.IH"[OF refl True] by simp
      then show ?thesis using True by simp
    next
      assume "q = ?h" then show ?thesis using True by simp
    qed
  next
    case False
    then have "ancestors p = []" by (subst ancestors.simps) (simp add: Let_def)
    with "1.prems" show ?thesis by simp
  qed
qed

subsection \<open>Making directories\<close>

lemma map_of_dirs:
  "map_of (map (\<lambda>p. (p, Dir)) ds) q = (if q \<in> set ds then Some Dir else None)"
  by (induction ds) auto

lemma map_of_append_dirs:
  "map_of (fs @ map (\<lambda>p. (p, Dir)) ds) q =
     (case map_of fs q of Some x \<Rightarrow> Some x | None \<Rightarrow> if q \<in> set ds then Some Dir else None)"
  by (simp add: map_add_def map_of_dirs split: option.splits)

lemma try_mkdir_Inr:
  assumes "try_mkdir fs p ok = Inr fs1"
  shows "(fs1 = fs @ [(p, Dir)] \<and> \<not> path_exists fs p) \<or> (fs1 = fs \<and> isdir fs p)"
  using assms unfolding try_mkdir_def mkdir_def Let_def
  by (auto split: if_splits sum.splits)

lemma mkdir_fresh:
  assumes "p \<noteq> []" "\<not> path_exists fs p" "path_split p = (h, t)" "h = [] \<or> isdir fs h"
  shows "try_mkdir fs p ok = Inr (fs @ [(p, Dir)])"
  using assms unfolding try_mkdir_def mkdir_def Let_def by auto

lemma missing_top:
  assumes "ancestors d = []" "\<not> path_exists fs d"
  shows "missing fs d = [d]"
  using assms by (simp add: missing_def)

lemma missing_step:
  assumes "ancestors d = ancestors h @ [h]" "\<not> path_exists fs d"
  shows "missing fs d = missing fs h @ [d]"
  using assms by (simp add: missing_def)

lemma missing_subset: "set (missing fs d) \<subseteq> set (ancestors d @ [d])"
  by (auto simp: missing_def dest: set_takeWhileD)

lemma missing_self:
  assumes "\<not> path_exists fs d"
  shows "d \<in> set (missing fs d)"
  using assms by (simp add: missing_def)

lemma makedirs_absent:
  assumes "plain_path d" "\<not> path_exists fs d" "\<forall>p \<in> set (ancestors d). \<not> isfile fs p"
  shows "makedirs fs d ok = Inr (fs @ map (\<lambda>p. (p, Dir)) (missing fs d))"
  using assms
proof (induction d rule: length_induct)
  case (1 d)
  from "1.prems"(1) obtain h t where ht: "path_split d = (h, t)" "t \<noteq> []" "t \<noteq> ''.''"
    and hh: "h = [] \<or> (d = h @ ''/'' @ t \<and> plain_path h)"
    by (rule plain_path_split)
  have hd: "head_tail d = (h, t)" using ht(1,2) by (rule head_tail_plain)
  have dne: "d \<noteq> []" using "1.prems"(1) by (rule plain_path_nonempty)
  show ?case
  proof (cases "h = []")
    case True
    then have "ancestors d = []" using ht(1) ancestors_top by simp
    then have m: "missing fs d = [d]" using "1.prems"(2) by (rule missing_top)
    have "makedirs fs d ok = try_mkdir fs d ok"
      by (subst makedirs.simps) (simp add: hd True)
    also have "\<dots> = Inr (fs @ [(d, Dir)])"
      using dne "1.prems"(2) ht(1) True by (intro mkdir_fresh) auto
    finally show ?thesis by (simp add: m)
  next
    case False
    with hh have d: "d = h @ ''/'' @ t" and ph: "plain_path h" by simp_all
    have a: "ancestors d = ancestors h @ [h]" using ht(1) False d by (rule ancestors_step)
    have m: "missing fs d = missing fs h @ [d]" using a "1.prems"(2) by (rule missing_step)
    have "length d = length (h @ ''/'' @ t)" using d by (rule arg_cong)
    then have len: "length h < length d" by simp
    show ?thesis
    proof (cases "path_exists fs h")
      case True
      have "\<not> isfile fs h" using "1.prems"(3) a by simp
      with True have dir: "isdir fs h"
        by (auto simp: path_exists_def isfile_def isdir_def split: option.splits node.splits)
      have mh: "missing fs h = []" using True
        by (simp add: missing_def)
      have "makedirs fs d ok = try_mkdir fs d ok"
        by (subst makedirs.simps) (simp add: hd True)
      also have "\<dots> = Inr (fs @ [(d, Dir)])"
        using dne "1.prems"(2) ht(1) dir by (intro mkdir_fresh) auto
      finally show ?thesis by (simp add: m mh)
    next
      case absent: False
      have "\<forall>p \<in> set (ancestors h). \<not> isfile fs p" using "1.prems"(3) a by simp
      with "1.IH" len ph absent
      have IH: "makedirs fs h ok = Inr (fs @ map (\<lambda>p. (p, Dir)) (missing fs h))" by blast
      let ?fs' = "fs @ map (\<lambda>p. (p, Dir)) (missing fs h)"
      have "d \<notin> set (missing fs h)"
      proof
        assume "d \<in> set (missing fs h)"
        then have "d \<in> set (ancestors h @ [h])" using missing_subset by blast
        then have "length d \<le> length h" using ancestors_shorter[of d h] by auto
        with len show False by simp
      qed
      then have nd: "\<not> path_exists ?fs' d"
        using "1.prems"(2) by (simp add: path_exists_def map_add_def map_of_dirs split: option.splits)
      have dirh: "isdir ?fs' h"
        using absent missing_self[OF absent]
        by (simp add: isdir_def path_exists_def map_add_def map_of_dirs split: option.splits)
      have "makedirs fs d ok = try_mkdir ?fs' d ok"
        by (subst makedirs.simps) (simp add: hd False absent IH ht)
      also have "\<dots> = Inr (?fs' @ [(d, Dir)])"
        using dne nd ht(1) dirh by (intro mkdir_fresh) auto
      finally show ?thesis by (simp add: m)
    qed
  qed
qed

lemma makedirs_plain:
  assumes "plain_path d" "makedirs fs d ok = Inr fs1"
  shows "\<exists>ds. fs1 = fs @ map (\<lambda>p. (p, Dir)) ds \<and> set ds \<subseteq> set (ancestors d @ [d]) \<and> isdir fs1 d"
  using assms
proof (induction d arbitrary: fs1 rule: length_induct)
  case (1 d)
  from "1.prems"(1) obtain h t where ht: "path_split d = (h, t)" "t \<noteq> []" "t \<noteq> ''.''"
    and hh: "h = [] \<or> (d = h @ ''/'' @ t \<and> plain_path h)"
    by (rule plain_path_split)
  have hd: "head_tail d = (h, t)" using ht(1,2) by (rule head_tail_plain)
  have last: "\<exists>ds. fs1 = fs @ map (\<lambda>p. (p, Dir)) ds \<and> set ds \<subseteq> set (ancestors d @ [d]) \<and> isdir fs1 d"
    if t: "try_mkdir (fs @ map (\<lambda>p. (p, Dir)) ds') d ok = Inr fs1"
      and s: "set ds' \<subseteq> set (ancestors d)" for ds'
  proof -
    let ?fs' = "fs @ map (\<lambda>p. (p, Dir)) ds'"
    from try_mkdir_Inr[OF t] show ?thesis
    proof
      assume c: "fs1 = ?fs' @ [(d, Dir)] \<and> \<not> path_exists ?fs' d"
      then have "fs1 = fs @ map (\<lambda>p. (p, Dir)) (ds' @ [d])" by simp
      moreover have "set (ds' @ [d]) \<subseteq> set (ancestors d @ [d])" using s by auto
      moreover have "isdir fs1 d" using c
        by (auto simp: isdir_def path_exists_def map_add_def split: option.splits)
      ultimately show ?thesis by blast
    next
      assume c: "fs1 = ?fs' \<and> isdir ?fs' d"
      moreover have "set ds' \<subseteq> set (ancestors d @ [d])" using s by auto
      ultimately show ?thesis by blast
    qed
  qed
  show ?case
  proof (cases "h \<noteq> [] \<and> \<not> path_exists fs h")
    case False
    then have "makedirs fs d ok = try_mkdir fs d ok"
      by (subst makedirs.simps) (auto simp: hd)
    with "1.prems"(2) have "try_mkdir (fs @ map (\<lambda>p. (p, Dir)) []) d ok = Inr fs1" by simp
    then show ?thesis by (rule last) simp
  next
    case True
    with hh have d: "d = h @ ''/'' @ t" and ph: "plain_path h" by simp_all
    have a: "ancestors d = ancestors h @ [h]" using ht(1) _ d by (rule ancestors_step) (use True in simp)
    have "length d = length (h @ ''/'' @ t)" using d by (rule arg_cong)
    then have len: "length h < length d" by simp
    have unf: "makedirs fs d ok =
        (case makedirs fs h ok of
              Inl e \<Rightarrow> if is_FileExistsError e then try_mkdir fs d ok else Inl e
            | Inr fs' \<Rightarrow> try_mkdir fs' d ok)"
      by (subst makedirs.simps) (simp add: hd True ht split: sum.splits)
    show ?thesis
    proof (cases "makedirs fs h ok")
      case (Inl e)
      with unf "1.prems"(2) have "try_mkdir fs d ok = Inr fs1" by (simp split: if_splits)
      then have "try_mkdir (fs @ map (\<lambda>p. (p, Dir)) []) d ok = Inr fs1" by simp
      then show ?thesis by (rule last) simp
    next
      case (Inr fs')
      with "1.IH" len ph obtain ds' where
        ds': "fs' = fs @ map (\<lambda>p. (p, Dir)) ds'" "set ds' \<subseteq> set (ancestors h @ [h])"
        by blast
      from unf Inr "1.prems"(2) have "try_mkdir fs' d ok = Inr fs1" by simp
      then have "try_mkdir (fs @ map (\<lambda>p. (p, Dir)) ds') d ok = Inr fs1" using ds'(1) by simp
      then show ?thesis by (rule last) (use ds'(2) a in simp)
    qed
  qed
qed

section \<open>Properties of the numbering counter\<close>

subsection \<open>The scan of the directory\<close>

lemma isdecimal_isdigit: "isdecimal c \<Longrightarrow> isdigit c"
  by (simp add: isdigit_def)

lemma scan_files_decimal:
  assumes "\<forall>f \<in> set existing_files. list_all isdecimal (number_part f)"
  shows "scan_files existing_files m =
         Inr (Max (set (m # map (\<lambda>f. int (dec_val (number_part f)))
                            (filter (\<lambda>f. number_part f \<noteq> []) existing_files))))"
  using assms
proof (induction existing_files arbitrary: m)
  case Nil
  then show ?case by simp
next
  case (Cons f existing_files)
  let ?rest = "map (\<lambda>f. int (dec_val (number_part f))) (filter (\<lambda>f. number_part f \<noteq> []) existing_files)"
  have dec: "list_all isdecimal (number_part f)" using Cons.prems by simp
  have IH: "\<And>m. scan_files existing_files m = Inr (Max (set (m # ?rest)))"
    using Cons.IH Cons.prems by simp
  show ?case
  proof (cases "number_part f = []")
    case True
    then show ?thesis using IH by (simp add: str_isdigit_def)
  next
    case False
    have dig: "str_isdigit (number_part f)"
      using False dec by (auto simp: str_isdigit_def list_all_iff isdecimal_isdigit)
    have pi: "py_int (number_part f) = Inr (int (dec_val (number_part f)))"
      using False dec by (simp add: py_int_def)
    let ?v = "int (dec_val (number_part f))"
    have "Max (set ((if ?v > m then ?v else m) # ?rest)) = Max (set (m # ?v # ?rest))"
      by (cases "set ?rest = {}") (auto simp: max_def)
    then show ?thesis using False dig pi IH by simp
  qed
qed

lemma path_join_child:
  assumes "n \<noteq> []" "CHR ''/'' \<notin> set n"
  shows "path_join d n = path_join d [] @ n"
  using assms by (cases n) (auto simp: path_join_def startswith_def)

lemma path_join_empty_last:
  "path_join d [] = [] \<or> last (path_join d []) = CHR ''/''"
proof (cases "d = [] \<or> endswith d ''/''")
  case True
  then show ?thesis
  proof
    assume "d = []" then show ?thesis by (simp add: path_join_def startswith_def)
  next
    assume e: "endswith d ''/''"
    then have "d \<noteq> []" by (auto simp: endswith_def)
    then obtain xs x where d: "d = xs @ [x]" by (cases d rule: rev_cases) auto
    with e have "x = CHR ''/''" by (simp add: endswith_def)
    with d e show ?thesis by (simp add: path_join_def startswith_def)
  qed
next
  case False
  then show ?thesis by (simp add: path_join_def startswith_def)
qed

lemma basename_child:
  assumes "CHR ''/'' \<notin> set n" "pre = [] \<or> last pre = CHR ''/''"
  shows "basename (pre @ n) = n"
proof -
  have "takeWhile (\<lambda>c. c \<noteq> CHR ''/'') (rev pre) = []"
    using assms(2) by (cases pre rule: rev_cases) auto
  moreover have "\<forall>x \<in> set (rev n). x \<noteq> CHR ''/''" using assms(1) by auto
  then have tw: "takeWhile (\<lambda>c. c \<noteq> CHR ''/'') (rev n @ rev pre) =
      rev n @ takeWhile (\<lambda>c. c \<noteq> CHR ''/'') (rev pre)"
    by (intro takeWhile_append2) auto
  ultimately show ?thesis
    using tw by (simp add: basename_def)
qed

lemma child_name_Some:
  "child_name d p = Some n \<longleftrightarrow> (p = path_join d [] @ n \<and> n \<noteq> [] \<and> CHR ''/'' \<notin> set n)"
  by (auto simp: child_name_def Let_def) (metis append_take_drop_id)

lemma set_map_filter_eq:
  "set (List.map_filter f xs) = {y. \<exists>x \<in> set xs. f x = Some y}"
  by (induction xs) (auto simp: map_filter_simps split: option.splits)

lemma set_listdir:
  "set (listdir fs d) = {n. n \<noteq> [] \<and> CHR ''/'' \<notin> set n \<and> path_join d [] @ n \<in> fst ` set fs}"
  by (auto simp: listdir_def set_map_filter_eq child_name_Some image_iff)

lemma number_part_child:
  assumes "n \<in> set (listdir fs d)"
  shows "number_part (path_join d n) = number_part n"
proof -
  from assms have n: "n \<noteq> []" "CHR ''/'' \<notin> set n" by (auto simp: set_listdir)
  have "basename (path_join d [] @ n) = n"
    using n(2) path_join_empty_last by (rule basename_child)
  moreover have "basename ([] @ n) = n"
    using n(2) by (intro basename_child) auto
  ultimately show ?thesis using n by (simp add: number_part_def path_join_child)
qed

lemma scan_glob:
  assumes "\<forall>n \<in> set ns. n \<in> set (listdir fs d)"
      and "\<forall>n \<in> set ns. list_all isdecimal (number_part n)"
  shows "scan_files (map (path_join d) ns) m =
         Inr (Max (set (m # map (\<lambda>n. int (dec_val (number_part n)))
                            (filter (\<lambda>n. number_part n \<noteq> []) ns))))"
proof -
  have np: "\<forall>n \<in> set ns. number_part (path_join d n) = number_part n"
    using assms(1) number_part_child by blast
  have dec: "\<forall>f \<in> set (map (path_join d) ns). list_all isdecimal (number_part f)"
    using assms(2) np by auto
  have "map (\<lambda>f. int (dec_val (number_part f)))
          (filter (\<lambda>f. number_part f \<noteq> []) (map (path_join d) ns)) =
        map (\<lambda>n. int (dec_val (number_part n))) (filter (\<lambda>n. number_part n \<noteq> []) ns)"
    using np by (induction ns) auto
  then show ?thesis using scan_files_decimal[OF dec, of m] by simp
qed

lemma isdir_exists: "isdir fs d \<Longrightarrow> path_exists fs d"
  by (auto simp: isdir_def path_exists_def split: option.splits)

lemma get_next_vocal_number_isdir:
  assumes "isdir fs d"
      and "\<forall>n \<in> set (listdir fs d). fnmatch_vocal_wav n \<longrightarrow> list_all isdecimal (number_part n)"
  shows "get_next_vocal_number fs d = (Inr (Max (set (0 # entry_numbers (listdir fs d))) + 1), fs)"
proof -
  let ?ns = "filter fnmatch_vocal_wav (listdir fs d)"
  have "scan_files (map (path_join d) ?ns) 0 =
         Inr (Max (set (0 # map (\<lambda>n. int (dec_val (number_part n)))
                            (filter (\<lambda>n. number_part n \<noteq> []) ?ns))))"
    using assms(2) by (intro scan_glob) auto
  then have "scan_files (glob_vocal_wav fs d) 0 = Inr (Max (set (0 # entry_numbers (listdir fs d))))"
    using assms(1) by (simp add: entry_numbers_def conj_commute glob_vocal_wav_def)
  then show ?thesis
    using isdir_exists[OF assms(1)] by (simp add: get_next_vocal_number_def)
qed

lemma get_next_vocal_number_not_dir:
  assumes "path_exists fs d" "\<not> isdir fs d"
  shows "get_next_vocal_number fs d = (Inr 1, fs)"
  using assms by (simp add: get_next_vocal_number_def glob_vocal_wav_def)

lemma get_next_vocal_number_absent:
  assumes "plain_path d" "\<not> path_exists fs d" "\<forall>p \<in> set (ancestors d). \<not> isfile fs p"
  shows "get_next_vocal_number fs d = (Inr 1, fs @ map (\<lambda>p. (p, Dir)) (missing fs d))"
  using assms(2) makedirs_absent[OF assms, of False]
  by (simp add: get_next_vocal_number_def)

lemma missing_made:
  assumes "\<not> path_exists fs d"
  shows "isdir (fs @ map (\<lambda>p. (p, Dir)) (missing fs d)) d"
    and "set (missing fs d) \<subseteq> set (ancestors d @ [d])"
    and "\<forall>p \<in> set (missing fs d). \<not> path_exists fs p"
proof -
  show "isdir (fs @ map (\<lambda>p. (p, Dir)) (missing fs d)) d"
    using assms missing_self[OF assms]
    by (simp add: isdir_def path_exists_def map_add_def map_of_dirs split: option.splits)
  show "set (missing fs d) \<subseteq> set (ancestors d @ [d])" by (rule missing_subset)
  show "\<forall>p \<in> set (missing fs d). \<not> path_exists fs p"
    by (auto simp: missing_def dest: set_takeWhileD)
qed

lemma isdecimal_not_sep: "isdecimal c \<Longrightarrow> c \<noteq> CHR ''/'' \<and> c \<noteq> CHR ''.''"
  by (auto simp: isdecimal_def)

lemma number_part_chunk_name:
  assumes "list_all isdecimal ds"
  shows "number_part (''vocal'' @ ds @ ''.wav'') = ds"
proof -
  have nosep: "\<forall>c \<in> set ds. c \<noteq> CHR ''/'' \<and> c \<noteq> CHR ''.''"
    using assms isdecimal_not_sep by (auto simp: list_all_iff)
  have b: "basename (''vocal'' @ ds @ ''.wav'') = ''vocal'' @ ds @ ''.wav''"
    using basename_child[of "''vocal'' @ ds @ ''.wav''" "[]"] nosep by auto
  have tw: "takeWhile (\<lambda>c. c \<noteq> CHR ''.'') (rev (''vocal'' @ ds @ ''.wav'')) = ''vaw''"
    by simp
  have sp: "splitext (''vocal'' @ ds @ ''.wav'') = (''vocal'' @ ds, ''.wav'')"
    unfolding splitext_def Let_def tw by simp
  have "filter isdigit ds = ds"
    using assms by (auto simp: list_all_iff isdecimal_isdigit intro: filter_True)
  then show ?thesis
    unfolding number_part_def b sp by (simp add: isdigit_def isdecimal_def)
qed

lemma set_entry_numbers:
  "set (entry_numbers ns) =
   (\<lambda>n. int (dec_val (number_part n))) ` {n \<in> set ns. fnmatch_vocal_wav n \<and> number_part n \<noteq> []}"
  by (auto simp: entry_numbers_def)

lemma map_of_insert_other:
  assumes "p \<noteq> d"
  shows "map_of (fs1 @ (p, nd) # fs2) d = map_of (fs1 @ fs2) d"
  using assms by (simp add: map_add_def split: option.splits)

lemma path_join_child_neq:
  assumes "n \<noteq> []" "CHR ''/'' \<notin> set n"
  shows "path_join d n \<noteq> d"
proof -
  have "length (path_join d n) > length d"
    using assms by (cases n) (auto simp: path_join_def startswith_def)
  then show ?thesis by auto
qed

lemma set_listdir_insert:
  assumes "n \<noteq> []" "CHR ''/'' \<notin> set n"
  shows "set (listdir (fs1 @ (path_join d n, nd) # fs2) d) = insert n (set (listdir (fs1 @ fs2) d))"
  using assms by (auto simp: set_listdir path_join_child)

subsection \<open>The result of \<open>get_next_vocal_number\<close>\<close>

text \<open>
  C1 (as amended). Let the directory path be a plain path without a pattern character of
  \<open>glob\<close>, and let no ancestor of it be a regular file. When the path does not exist, the
  directory is created together with its missing ancestors (nothing else changes) and
  the result is 1. When it exists, the result is one more than the largest number read
  from the entries that match the glob \<open>vocal*.wav\<close>, where the number read from an entry
  is the decimal number spelled by all the digit characters of its name before the
  extension, in order, and an entry without a digit is skipped; the result is 1 when no
  entry contributes. For an entry \<open>vocal<digits>.wav\<close> the number read is the value of
  \<open><digits>\<close>. Names with a digit character that is not a decimal digit are left aside.
\<close>

theorem get_next_vocal_number_result:
  assumes "plain_path output_dir" and "\<not> has_magic output_dir"
      and "\<forall>p \<in> set (ancestors output_dir). \<not> isfile fs p"
      and "\<forall>n \<in> set (listdir fs output_dir).
             fnmatch_vocal_wav n \<longrightarrow> list_all isdecimal (number_part n)"
  shows "get_next_vocal_number fs output_dir =
           (if \<not> path_exists fs output_dir
            then (Inr 1, fs @ map (\<lambda>p. (p, Dir)) (missing fs output_dir))
            else if \<not> isdir fs output_dir then (Inr 1, fs)
            else (Inr (Max (set (0 # entry_numbers (listdir fs output_dir))) + 1), fs))
         \<and> (\<not> path_exists fs output_dir \<longrightarrow>
              isdir (fs @ map (\<lambda>p. (p, Dir)) (missing fs output_dir)) output_dir
              \<and> set (missing fs output_dir) \<subseteq> set (ancestors output_dir @ [output_dir])
              \<and> (\<forall>p \<in> set (missing fs output_dir). \<not> path_exists fs p))
         \<and> (\<forall>ds. list_all isdecimal ds \<longrightarrow> number_part (''vocal'' @ ds @ ''.wav'') = ds)"
proof -
  have 1: "get_next_vocal_number fs output_dir =
           (if \<not> path_exists fs output_dir
            then (Inr 1, fs @ map (\<lambda>p. (p, Dir)) (missing fs output_dir))
            else if \<not> isdir fs output_dir then (Inr 1, fs)
            else (Inr (Max (set (0 # entry_numbers (listdir fs output_dir))) + 1), fs))"
    using get_next_vocal_number_absent[OF assms(1) _ assms(3)]
      get_next_vocal_number_not_dir[of fs output_dir]
      get_next_vocal_number_isdir[OF _ assms(4)]
    by auto
  show ?thesis
    using 1 missing_made[of fs output_dir] number_part_chunk_name by blast
qed

theorem get_next_vocal_number_result_witness:
  "get_next_vocal_number [(''out'', Dir), (''out/vocal1.wav'', File ()), (''out/vocal3.wav'', File ()),
       (''out/notes.txt'', File ())] ''out''
     = (Inr 4, [(''out'', Dir), (''out/vocal1.wav'', File ()), (''out/vocal3.wav'', File ()),
       (''out/notes.txt'', File ())])
   \<and> get_next_vocal_number [(''out'', Dir :: unit node)] ''fresh/clips''
     = (Inr 1, [(''out'', Dir), (''fresh'', Dir), (''fresh/clips'', Dir)])
   \<and> number_part ''vocal12.wav'' = ''12''"
proof -
  let ?fs = "[(''out'', Dir), (''out/vocal1.wav'', File ()), (''out/vocal3.wav'', File ()),
       (''out/notes.txt'', File ())]"
  let ?gs = "[(''out'', Dir :: unit node)]"
  have h1: "plain_path ''out''" by code_simp
  have h2: "\<not> has_magic ''out''" by code_simp
  have h3: "\<forall>p \<in> set (ancestors ''out''). \<not> isfile ?fs p" by code_simp
  have h4: "\<forall>n \<in> set (listdir ?fs ''out'').
             fnmatch_vocal_wav n \<longrightarrow> list_all isdecimal (number_part n)"
    by code_simp
  have r: "(if \<not> path_exists ?fs ''out''
            then (Inr 1, ?fs @ map (\<lambda>p. (p, Dir)) (missing ?fs ''out''))
            else if \<not> isdir ?fs ''out'' then (Inr 1, ?fs)
            else (Inr (Max (set (0 # entry_numbers (listdir ?fs ''out''))) + 1), ?fs))
           = (Inr 4 :: error + int, ?fs)"
    by code_simp
  have g1: "plain_path ''fresh/clips''" by code_simp
  have g2: "\<not> has_magic ''fresh/clips''" by code_simp
  have g3: "\<forall>p \<in> set (ancestors ''fresh/clips''). \<not> isfile ?gs p" by code_simp
  have g4: "\<forall>n \<in> set (listdir ?gs ''fresh/clips'').
             fnmatch_vocal_wav n \<longrightarrow> list_all isdecimal (number_part n)"
    by code_simp
  have s: "(if \<not> path_exists ?gs ''fresh/clips''
            then (Inr 1, ?gs @ map (\<lambda>p. (p, Dir)) (missing ?gs ''fresh/clips''))
            else if \<not> isdir ?gs ''fresh/clips'' then (Inr 1, ?gs)
            else (Inr (Max (set (0 # entry_numbers (listdir ?gs ''fresh/clips''))) + 1), ?gs))
           = (Inr 1 :: error + int, [(''out'', Dir), (''fresh'', Dir), (''fresh/clips'', Dir)])"
    by code_simp
  have d: "list_all isdecimal ''12''" by code_simp
  have A: "get_next_vocal_number ?fs ''out'' = (Inr 4, ?fs)"
    using get_next_vocal_number_result[OF h1 h2 h3 h4, THEN conjunct1] unfolding r .
  have B: "get_next_vocal_number ?gs ''fresh/clips''
             = (Inr 1, [(''out'', Dir), (''fresh'', Dir), (''fresh/clips'', Dir)])"
    using get_next_vocal_number_result[OF g1 g2 g3 g4, THEN conjunct1] unfolding s .
  have C: "number_part ''vocal12.wav'' = ''12''"
    using get_next_vocal_number_result[OF h1 h2 h3 h4, THEN conjunct2, THEN conjunct2,
        rule_format, OF d]
    by simp
  from A B C show ?thesis by blast
qed

text \<open>
  A directory whose only entry is \<open>vocalx9.wav\<close> has no entry of the form
  \<open>vocal<digits>.wav\<close>, so the specification's counter gives 1; the program returns 10.
\<close>

theorem next_number_spec_counterexample:
  "fst (get_next_vocal_number [(''out'', Dir), (''out/vocalx9.wav'', File ())] ''out'') = Inr 10
   \<and> spec_next_number (listdir [(''out'', Dir), (''out/vocalx9.wav'', File ())] ''out'') = 1"
  by code_simp

lemma Max_insert0_insert:
  assumes "finite S"
  shows "Max (insert (0::int) (insert v S)) = max v (Max (insert 0 S))"
proof -
  have "Max (insert v (insert 0 S)) = max v (Max (insert 0 S))"
    by (rule Max_insert) (use assms in auto)
  then show ?thesis unfolding insert_commute[of 0 v S] .
qed

text \<open>
  C2 (as amended). Let \<open>e\<close> be an entry of an existing directory that matches the glob
  \<open>vocal*.wav\<close>, the path of the directory being a plain path without a pattern
  character of \<open>glob\<close>. When the name of \<open>e\<close> before the extension holds no digit character
  (as in \<open>vocal.wav\<close>), the entry is ignored: the result is the one obtained without it
  and no error is raised. When it holds decimal digits (as in \<open>vocal1copy2.wav\<close>), the
  entry is not ignored: it counts as the number spelled by those digits (here 12), and
  the result is the larger of the result without it and that number plus one.
\<close>

theorem extra_glob_entry_effect:
  assumes "fnmatch_vocal_wav e" and "CHR ''/'' \<notin> set e"
      and "isdir (fs1 @ fs2) d"
      and "\<forall>n \<in> set (listdir (fs1 @ fs2) d).
             fnmatch_vocal_wav n \<longrightarrow> list_all isdecimal (number_part n)"
      and "list_all isdecimal (number_part e)"
      and "plain_path d" and "\<not> has_magic d"
  shows "fst (get_next_vocal_number (fs1 @ (path_join d e, nd) # fs2) d) =
           (case fst (get_next_vocal_number (fs1 @ fs2) d) of
              Inl err \<Rightarrow> Inl err
            | Inr k \<Rightarrow> if number_part e = [] then Inr k
                       else Inr (max k (int (dec_val (number_part e)) + 1)))"
proof -
  let ?fs = "fs1 @ fs2" and ?fs' = "fs1 @ (path_join d e, nd) # fs2"
  have e: "e \<noteq> []" using assms(1) by (auto simp: fnmatch_vocal_wav_def)
  have ls: "set (listdir ?fs' d) = insert e (set (listdir ?fs d))"
    using e assms(2) by (rule set_listdir_insert)
  have "map_of ?fs' d = map_of ?fs d"
    using path_join_child_neq[OF e assms(2)] by (rule map_of_insert_other)
  then have dir': "isdir ?fs' d" using assms(3) by (simp add: isdir_def)
  have dec': "\<forall>n \<in> set (listdir ?fs' d).
             fnmatch_vocal_wav n \<longrightarrow> list_all isdecimal (number_part n)"
    using assms(4,5) ls by auto
  have r: "fst (get_next_vocal_number ?fs d) = Inr (Max (set (0 # entry_numbers (listdir ?fs d))) + 1)"
    using get_next_vocal_number_isdir[OF assms(3,4)] by simp
  have r': "fst (get_next_vocal_number ?fs' d) = Inr (Max (set (0 # entry_numbers (listdir ?fs' d))) + 1)"
    using get_next_vocal_number_isdir[OF dir' dec'] by simp
  let ?S = "set (entry_numbers (listdir ?fs d))"
  show ?thesis
  proof (cases "number_part e = []")
    case True
    then have "set (entry_numbers (listdir ?fs' d)) = ?S"
      unfolding set_entry_numbers ls by auto
    then show ?thesis using True r r' by simp
  next
    case False
    then have "set (entry_numbers (listdir ?fs' d)) = insert (int (dec_val (number_part e))) ?S"
      unfolding set_entry_numbers ls using assms(1) by auto
    then have "Max (set (0 # entry_numbers (listdir ?fs' d))) =
               max (int (dec_val (number_part e))) (Max (insert 0 ?S))"
      using Max_insert0_insert[of ?S] by simp
    moreover define M where "M = Max (insert 0 ?S)"
    ultimately have r2: "fst (get_next_vocal_number ?fs' d) = Inr (max (int (dec_val (number_part e))) M + 1)"
      and r1: "fst (get_next_vocal_number ?fs d) = Inr (M + 1)"
      using r r' by simp_all
    show ?thesis unfolding r1 r2 using False by (simp add: max_def)
  qed
qed

theorem extra_glob_entry_effect_witness:
  "fst (get_next_vocal_number ([(''out'', Dir), (''out/vocal3.wav'', File ())] @ (path_join ''out'' ''vocal.wav'', File ()) # []) ''out'')
     = Inr 4
   \<and> fst (get_next_vocal_number ([(''out'', Dir), (''out/vocal3.wav'', File ())] @ (path_join ''out'' ''vocal1copy2.wav'', File ()) # []) ''out'')
     = Inr 13"
proof -
  let ?fs1 = "[(''out'', Dir), (''out/vocal3.wav'', File ())]"
  have h3: "isdir (?fs1 @ []) ''out''" by code_simp
  have h4: "\<forall>n \<in> set (listdir (?fs1 @ []) ''out'').
             fnmatch_vocal_wav n \<longrightarrow> list_all isdecimal (number_part n)" by code_simp
  have a1: "fnmatch_vocal_wav ''vocal.wav''" by code_simp
  have a2: "CHR ''/'' \<notin> set ''vocal.wav''" by code_simp
  have a5: "list_all isdecimal (number_part ''vocal.wav'')" by code_simp
  have b1: "fnmatch_vocal_wav ''vocal1copy2.wav''" by code_simp
  have b2: "CHR ''/'' \<notin> set ''vocal1copy2.wav''" by code_simp
  have b5: "list_all isdecimal (number_part ''vocal1copy2.wav'')" by code_simp
  have h6: "plain_path ''out''" by code_simp
  have h7: "\<not> has_magic ''out''" by code_simp
  have ra: "(case fst (get_next_vocal_number (?fs1 @ []) ''out'') of
              Inl err \<Rightarrow> Inl err
            | Inr k \<Rightarrow> if number_part ''vocal.wav'' = [] then Inr k
                       else Inr (max k (int (dec_val (number_part ''vocal.wav'')) + 1))) = (Inr 4 :: error + int)"
    by code_simp
  have rb: "(case fst (get_next_vocal_number (?fs1 @ []) ''out'') of
              Inl err \<Rightarrow> Inl err
            | Inr k \<Rightarrow> if number_part ''vocal1copy2.wav'' = [] then Inr k
                       else Inr (max k (int (dec_val (number_part ''vocal1copy2.wav'')) + 1))) = (Inr 13 :: error + int)"
    by code_simp
  have A: "fst (get_next_vocal_number (?fs1 @ (path_join ''out'' ''vocal.wav'', File ()) # []) ''out'') = Inr 4"
    using extra_glob_entry_effect[OF a1 a2 h3 h4 a5 h6 h7, of "File ()"] unfolding ra .
  have B: "fst (get_next_vocal_number (?fs1 @ (path_join ''out'' ''vocal1copy2.wav'', File ()) # []) ''out'') = Inr 13"
    using extra_glob_entry_effect[OF b1 b2 h3 h4 b5 h6 h7, of "File ()"] unfolding rb .
  from A B show ?thesis by blast
qed

text \<open>
  The entry \<open>vocal1copy2.wav\<close> matches the glob and is not of the form
  \<open>vocal<digits>.wav\<close>; adding it to a directory that holds \<open>vocal3.wav\<close> changes the
  result from 4 to 13.
\<close>

theorem malformed_entry_counted_counterexample:
  "fnmatch_vocal_wav ''vocal1copy2.wav'' \<and> chunk_suffix ''vocal1copy2.wav'' = None
   \<and> fst (get_next_vocal_number [(''out'', Dir), (''out/vocal3.wav'', File ())] ''out'') = Inr 4
   \<and> fst (get_next_vocal_number [(''out'', Dir), (''out/vocal3.wav'', File ()),
            (''out/vocal1copy2.wav'', File ())] ''out'') = Inr 13"
  by code_simp

text \<open>
  An entry whose name holds a superscript digit passes the test \<open>str.isdigit\<close>, and
  \<open>int()\<close> raises on it: the call ends with \<open>ValueError\<close>.
\<close>

theorem superscript_digit_raises:
  "fst (get_next_vocal_number
          [(''out'', Dir), (''out/vocal3.wav'', File ()), (''out/vocal'' @ [CHR 0xB2] @ ''.wav'', File ())]
          ''out'')
     = Inl (ValueError [CHR 0xB2])"
  by code_simp

text \<open>
  A path below a regular file does not exist, and \<open>os.makedirs\<close> cannot make it: the
  call ends with \<open>NotADirectoryError\<close> and nothing is created.
\<close>

theorem directory_below_file_raises:
  "get_next_vocal_number [(''f.txt'', File ())] ''f.txt/sub''
     = (Inl (NotADirectoryError ''f.txt/sub''), [(''f.txt'', File ())])"
  by code_simp

section \<open>Auxiliary facts about the segmenter\<close>

subsection \<open>Decimal numerals and file names\<close>

lemma digit_char_props:
  assumes "d < 10"
  shows "digit_val (digit_char d) = d" and "isdecimal (digit_char d)"
proof -
  from assms have "d \<in> {0, 1, 2, 3, 4, 5, 6, 7, 8, 9}" by auto
  then show "digit_val (digit_char d) = d" and "isdecimal (digit_char d)"
    by (auto simp: digit_char_def digit_val_def isdecimal_def)
qed

lemma dec_val_snoc: "dec_val (s @ [c]) = 10 * dec_val s + digit_val c"
  by (simp add: dec_val_def)

lemma dec_val_str_nat: "dec_val (str_nat n) = n"
proof (induction n rule: str_nat.induct)
  case (1 n)
  show ?case
  proof (cases "n < 10")
    case True
    then show ?thesis by (simp add: str_nat.simps[of n] dec_val_def digit_char_props)
  next
    case False
    then have "dec_val (str_nat n) = 10 * (n div 10) + n mod 10"
      using 1 by (simp add: str_nat.simps[of n] dec_val_snoc digit_char_props)
    then show ?thesis by simp
  qed
qed

lemma str_nat_decimal: "list_all isdecimal (str_nat n)"
proof (induction n rule: str_nat.induct)
  case (1 n)
  then show ?case
    by (cases "n < 10") (simp_all add: str_nat.simps[of n] digit_char_props)
qed

lemma str_nat_nonempty: "str_nat n \<noteq> []"
  by (simp add: str_nat.simps[of n])

lemma str_nat_inj: "str_nat m = str_nat n \<Longrightarrow> m = n"
  by (metis dec_val_str_nat)

lemma str_nat_no_minus: "CHR ''-'' \<notin> set (str_nat n)"
proof
  assume "CHR ''-'' \<in> set (str_nat n)"
  then have "isdecimal CHR ''-''" using str_nat_decimal[of n] by (simp add: list_all_iff)
  then show False by (simp add: isdecimal_def)
qed

lemma py_str_inj: "py_str i = py_str j \<Longrightarrow> i = j"
proof -
  assume eq: "py_str i = py_str j"
  have hd: "\<And>n. hd (str_nat n) \<noteq> CHR ''-''"
    using str_nat_no_minus str_nat_nonempty by (metis hd_in_set)
  show "i = j"
  proof (cases "i < 0"; cases "j < 0")
    assume "i < 0" "j < 0"
    with eq have "nat (- i) = nat (- j)" by (auto simp: py_str_def dest: str_nat_inj)
    with \<open>i < 0\<close> \<open>j < 0\<close> show ?thesis by simp
  next
    assume "i < 0" "\<not> j < 0"
    with eq hd[of "nat j"] show ?thesis by (auto simp: py_str_def dest: arg_cong[where f=hd])
  next
    assume "\<not> i < 0" "j < 0"
    with eq hd[of "nat i"] show ?thesis by (auto simp: py_str_def dest: arg_cong[where f=hd])
  next
    assume "\<not> i < 0" "\<not> j < 0"
    with eq have "nat i = nat j" by (auto simp: py_str_def dest: str_nat_inj)
    with \<open>\<not> i < 0\<close> \<open>\<not> j < 0\<close> show ?thesis by simp
  qed
qed

lemma py_str_no_sep: "CHR ''/'' \<notin> set (py_str i)"
proof -
  have "\<And>n. CHR ''/'' \<notin> set (str_nat n)"
  proof
    fix n assume "CHR ''/'' \<in> set (str_nat n)"
    then have "isdecimal CHR ''/''" using str_nat_decimal[of n] by (simp add: list_all_iff)
    then show False by (simp add: isdecimal_def)
  qed
  then show ?thesis by (simp add: py_str_def)
qed

lemma vocal_name_inj: "vocal_name i = vocal_name j \<Longrightarrow> i = j"
  by (simp add: vocal_name_def py_str_inj)

lemma vocal_name_child: "vocal_name i \<noteq> []" "CHR ''/'' \<notin> set (vocal_name i)"
  using py_str_no_sep by (simp_all add: vocal_name_def)

lemma path_join_child_inj:
  assumes "m \<noteq> []" "CHR ''/'' \<notin> set m" "n \<noteq> []" "CHR ''/'' \<notin> set n"
      and "path_join d m = path_join d n"
  shows "m = n"
  using assms by (simp add: path_join_child)

lemma vocal_path_inj: "path_join d (vocal_name i) = path_join d (vocal_name j) \<Longrightarrow> i = j"
  using path_join_child_inj[OF vocal_name_child vocal_name_child] vocal_name_inj by blast

lemma vocal_path_neq_csv: "path_join d (vocal_name i) \<noteq> path_join d ''time_ranges.csv''"
proof
  assume "path_join d (vocal_name i) = path_join d ''time_ranges.csv''"
  then have "vocal_name i = ''time_ranges.csv''"
    by (intro path_join_child_inj[OF vocal_name_child]) auto
  then show False by (simp add: vocal_name_def)
qed

lemma vocal_path_neq_dir: "path_join d (vocal_name i) \<noteq> d"
  using path_join_child_neq[OF vocal_name_child] .

lemma child_name_vocal: "child_name d (path_join d (vocal_name i)) = Some (vocal_name i)"
  using vocal_name_child[of i] by (simp add: child_name_Some path_join_child)

subsection \<open>The file store during a split\<close>

lemma set_update_subset: "set (AList.update k v al) \<subseteq> insert (k, v) (set al)"
  by (induction al) auto

lemma no_subdirs_not_isdir:
  assumes "no_subdirs fs d" "child_name d p \<noteq> None"
  shows "\<not> isdir fs p"
proof
  assume "isdir fs p"
  then have "map_of fs p = Some Dir" by (auto simp: isdir_def split: option.splits node.splits)
  then have "(p, Dir) \<in> set fs" by (rule map_of_SomeD)
  with assms show False by (auto simp: no_subdirs_def list_all_iff)
qed

lemma no_subdirs_update_file:
  assumes "no_subdirs fs d"
  shows "no_subdirs (AList.update p (File c) fs) d"
  using assms set_update_subset[of p "File c" fs]
  by (fastforce simp: no_subdirs_def list_all_iff)

lemma map_of_writerow:
  "map_of (writerow fs p row) q =
     (if q = p then (case map_of fs p of
                       Some (File c) \<Rightarrow> Some (File (Content (audio c) (rows c @ [row])))
                     | x \<Rightarrow> x)
      else map_of fs q)"
  by (auto simp: writerow_def update_conv' split: option.splits node.splits)

lemma no_subdirs_writerow:
  assumes "no_subdirs fs d"
  shows "no_subdirs (writerow fs p row) d"
  using assms by (auto simp: writerow_def no_subdirs_update_file split: option.splits node.splits)

lemma chunk_loop_Cons:
  assumes "no_subdirs (files w) d"
  shows "chunk_loop a d (path_join d ''time_ranges.csv'') L (i # rest) (s + int i) w =
         chunk_loop a d (path_join d ''time_ranges.csv'') L rest (s + int i + 1) (chunk_step a d L s i w)"
proof -
  have "\<not> isdir (files w) (path_join d (vocal_name (s + int i)))"
    using assms by (rule no_subdirs_not_isdir) (simp add: child_name_vocal)
  then show ?thesis
    by (simp add: write_file_def chunk_step_def chunk_line_def chunk_row_def chunk_of_def Let_def)
qed

lemma no_subdirs_chunk_step:
  assumes "no_subdirs (files w) d"
  shows "no_subdirs (files (chunk_step a d L s i w)) d"
  using assms by (simp add: chunk_step_def say_def no_subdirs_writerow no_subdirs_update_file)

lemma chunk_loop_foldl:
  assumes "no_subdirs (files w) d" "k \<le> n"
  shows "chunk_loop a d (path_join d ''time_ranges.csv'') L [k..<n] (s + int k) w =
         (Inr (s + int n), foldl (\<lambda>w i. chunk_step a d L s i w) w [k..<n])"
  using assms
proof (induction "n - k" arbitrary: k w)
  case 0
  then show ?case by simp
next
  case (Suc m)
  then have kn: "k < n" and m: "m = n - Suc k" by auto
  have ns: "no_subdirs (files (chunk_step a d L s k w)) d"
    using Suc.prems(1) by (rule no_subdirs_chunk_step)
  have eq: "s + int k + 1 = s + int (Suc k)" by simp
  have up: "[k..<n] = k # [Suc k..<n]" using kn by (rule upt_conv_Cons)
  have "chunk_loop a d (path_join d ''time_ranges.csv'') L [k..<n] (s + int k) w =
        chunk_loop a d (path_join d ''time_ranges.csv'') L [Suc k..<n] (s + int (Suc k))
          (chunk_step a d L s k w)"
    unfolding up chunk_loop_Cons[OF Suc.prems(1)] eq ..
  also have "\<dots> = (Inr (s + int n),
       foldl (\<lambda>w i. chunk_step a d L s i w) (chunk_step a d L s k w) [Suc k..<n])"
    using Suc.hyps(1)[OF m ns] kn by simp
  also have "foldl (\<lambda>w i. chunk_step a d L s i w) (chunk_step a d L s k w) [Suc k..<n] =
       foldl (\<lambda>w i. chunk_step a d L s i w) w [k..<n]"
    unfolding up by simp
  finally show ?case .
qed

lemma chunk_steps_Suc:
  "chunk_steps a d L s (Suc n) w = chunk_step a d L s n (chunk_steps a d L s n w)"
  by (simp add: chunk_steps_def)

lemma chunk_steps_0: "chunk_steps a d L s 0 w = w"
  by (simp add: chunk_steps_def)

lemma stdout_chunk_steps:
  "stdout (chunk_steps a d L s n w) = stdout w @ map (chunk_line a L s) [0..<n]"
  by (induction n) (simp_all add: chunk_steps_0 chunk_steps_Suc chunk_step_def say_def)

lemma map_of_chunk_step:
  "map_of (files (chunk_step a d L s i w)) p =
     (if p = path_join d ''time_ranges.csv'' then
        (case map_of (files w) p of
           Some (File c) \<Rightarrow> Some (File (Content (audio c) (rows c @ [chunk_row a L s i])))
         | x \<Rightarrow> x)
      else if p = path_join d (vocal_name (s + int i)) then
        Some (File (Content (Some (chunk_of a L i)) []))
      else map_of (files w) p)"
  using vocal_path_neq_csv[of d "s + int i"]
  by (auto simp: chunk_step_def say_def map_of_writerow update_conv' split: option.splits node.splits)

lemma csv_chunk_steps:
  assumes "map_of (files w) (path_join d ''time_ranges.csv'') = Some (File (Content x rs))"
  shows "map_of (files (chunk_steps a d L s n w)) (path_join d ''time_ranges.csv'') =
         Some (File (Content x (rs @ map (chunk_row a L s) [0..<n])))"
  using assms
  by (induction n) (simp_all add: chunk_steps_0 chunk_steps_Suc map_of_chunk_step)

lemma chunk_file_chunk_steps:
  assumes "i < n"
  shows "map_of (files (chunk_steps a d L s n w)) (path_join d (vocal_name (s + int i))) =
         Some (File (Content (Some (chunk_of a L i)) []))"
  using assms
proof (induction n)
  case 0
  then show ?case by simp
next
  case (Suc n)
  show ?case
  proof (cases "i = n")
    case True
    then show ?thesis
      using vocal_path_neq_csv[of d "s + int n"]
      by (simp add: chunk_steps_Suc map_of_chunk_step)
  next
    case False
    then have "i < n" using Suc.prems by simp
    moreover have "path_join d (vocal_name (s + int i)) \<noteq> path_join d (vocal_name (s + int n))"
      using False vocal_path_inj[of d "s + int i" "s + int n"] by auto
    ultimately show ?thesis
      using Suc.IH vocal_path_neq_csv[of d "s + int i"]
      by (simp add: chunk_steps_Suc map_of_chunk_step)
  qed
qed

lemma other_chunk_steps:
  assumes "p \<noteq> path_join d ''time_ranges.csv''"
      and "\<forall>i < n. p \<noteq> path_join d (vocal_name (s + int i))"
  shows "map_of (files (chunk_steps a d L s n w)) p = map_of (files w) p"
  using assms
  by (induction n) (simp_all add: chunk_steps_0 chunk_steps_Suc map_of_chunk_step)

lemma child_name_csv: "child_name d (path_join d ''time_ranges.csv'') = Some ''time_ranges.csv''"
  by (simp add: child_name_Some path_join_child)

lemma csv_neq_dir: "path_join d ''time_ranges.csv'' \<noteq> d"
  by (rule path_join_child_neq) auto

lemma path_join_child_longer:
  assumes "n \<noteq> []" "CHR ''/'' \<notin> set n"
  shows "length d < length (path_join d n)"
  using assms by (cases n) (auto simp: path_join_def startswith_def)

lemma child_name_longer:
  assumes "child_name d p = Some n"
  shows "length d < length p"
proof -
  from assms have p: "p = path_join d [] @ n" and n: "n \<noteq> []" "CHR ''/'' \<notin> set n"
    by (auto simp: child_name_Some)
  have "p = path_join d n" using p n by (simp add: path_join_child)
  then show ?thesis using path_join_child_longer[OF n, of d] by simp
qed

lemma no_subdirs_append_dirs:
  assumes "no_subdirs fs d" "\<forall>p \<in> set ds. length p \<le> length d"
  shows "no_subdirs (fs @ map (\<lambda>p. (p, Dir)) ds) d"
proof -
  have "child_name d p = None" if "p \<in> set ds" for p
  proof (cases "child_name d p")
    case (Some n)
    then have "length d < length p" by (rule child_name_longer)
    with assms(2) that show ?thesis by auto
  qed simp
  then show ?thesis using assms(1) by (auto simp: no_subdirs_def list_all_iff)
qed

lemma makedirs_exist_ok_store:
  assumes "plain_path d" "makedirs_exist_ok fs d = Inr fs1"
  obtains ds where "fs1 = fs @ map (\<lambda>p. (p, Dir)) ds" "set ds \<subseteq> set (ancestors d @ [d])"
    "isdir fs1 d"
  using makedirs_plain[OF assms(1) assms(2)[unfolded makedirs_exist_ok_def]] by blast

lemma made_no_subdirs:
  assumes "plain_path d" "makedirs_exist_ok fs d = Inr fs1" "no_subdirs fs d"
  shows "no_subdirs fs1 d"
proof -
  from assms(1,2) obtain ds where ds: "fs1 = fs @ map (\<lambda>p. (p, Dir)) ds"
    "set ds \<subseteq> set (ancestors d @ [d])"
    by (rule makedirs_exist_ok_store)
  have "\<forall>p \<in> set ds. length p \<le> length d"
    using ds(2) ancestors_shorter[of _ d] by (auto simp: less_imp_le)
  with assms(3) show ?thesis unfolding ds(1) by (rule no_subdirs_append_dirs)
qed

lemma made_map_of:
  assumes "plain_path d" "makedirs_exist_ok fs d = Inr fs1"
      and "p \<notin> set (ancestors d)" "p \<noteq> d"
  shows "map_of fs1 p = map_of fs p"
proof -
  from assms(1,2) obtain ds where ds: "fs1 = fs @ map (\<lambda>p. (p, Dir)) ds"
    "set ds \<subseteq> set (ancestors d @ [d])"
    by (rule makedirs_exist_ok_store)
  have "p \<notin> set ds" using ds(2) assms(3,4) by auto
  then show ?thesis unfolding ds(1) by (simp add: map_add_def map_of_dirs split: option.splits)
qed

lemma made_map_of_longer:
  assumes "plain_path d" "makedirs_exist_ok fs d = Inr fs1" "length d < length p"
  shows "map_of fs1 p = map_of fs p"
proof -
  have "p \<notin> set (ancestors d)" using ancestors_shorter[of p d] assms(3) by auto
  moreover have "p \<noteq> d" using assms(3) by auto
  ultimately show ?thesis using assms(1,2) by (intro made_map_of)
qed

lemma made_map_of_existing:
  assumes "plain_path d" "makedirs_exist_ok fs d = Inr fs1" "path_exists fs p"
  shows "map_of fs1 p = map_of fs p"
proof -
  from assms(1,2) obtain ds where ds: "fs1 = fs @ map (\<lambda>p. (p, Dir)) ds"
    by (rule makedirs_exist_ok_store)
  show ?thesis using assms(3) unfolding ds
    by (auto simp: map_of_append_dirs path_exists_def split: option.splits)
qed

lemma no_subdirs_log_opened:
  assumes "no_subdirs fs1 d"
  shows "no_subdirs (log_opened fs1 d) d"
  using assms
  by (auto simp: log_opened_def Let_def no_subdirs_update_file no_subdirs_writerow)

lemma split_wav_file_run:
  assumes "from_wav (files w) input_wav = Inr a" and "L \<noteq> 0"
      and "plain_path d" and "makedirs_exist_ok (files w) d = Inr fs1"
      and "no_subdirs (files w) d"
  shows "split_wav_file w input_wav d L s =
         (Inr (s + int (nat (int (length a) div (L * 1000)
                            + (if int (length a) mod (L * 1000) > 0 then 1 else 0)))),
          chunk_steps a d L s
            (nat (int (length a) div (L * 1000)
                  + (if int (length a) mod (L * 1000) > 0 then 1 else 0)))
            (w\<lparr>files := log_opened fs1 d\<rparr>))"
proof -
  let ?csv = "path_join d ''time_ranges.csv''"
  let ?n = "nat (int (length a) div (L * 1000) + (if int (length a) mod (L * 1000) > 0 then 1 else 0))"
  have ns1: "no_subdirs fs1 d" using assms(3,4,5) by (rule made_no_subdirs)
  have nd: "\<not> isdir fs1 ?csv"
    using ns1 by (rule no_subdirs_not_isdir) (simp add: child_name_csv)
  have op: "open_append fs1 ?csv =
        Inr (if path_exists fs1 ?csv then fs1 else AList.update ?csv (File (Content None [])) fs1)"
    using nd by (simp add: open_append_def)
  have ns: "no_subdirs (files (w\<lparr>files := log_opened fs1 d\<rparr>)) d"
    using ns1 by (simp add: no_subdirs_log_opened)
  have loop: "chunk_loop a d ?csv L [0..<?n] (s + int 0) (w\<lparr>files := log_opened fs1 d\<rparr>) =
        (Inr (s + int ?n), chunk_steps a d L s ?n (w\<lparr>files := log_opened fs1 d\<rparr>))"
    unfolding chunk_steps_def using ns by (intro chunk_loop_foldl) auto
  have "split_wav_file w input_wav d L s =
        chunk_loop a d ?csv L [0..<?n] s (w\<lparr>files := log_opened fs1 d\<rparr>)"
    unfolding split_wav_file_def assms(1) assms(4)
    using assms(2) op by (simp add: Let_def log_opened_def del: upt_Suc)
  then show ?thesis using loop by simp
qed

lemma map_of_log_opened:
  assumes "no_subdirs fs1 d"
  shows "map_of (log_opened fs1 d) p =
     (if p = path_join d ''time_ranges.csv'' then
        (case map_of fs1 p of
           Some (File c) \<Rightarrow> Some (File c)
         | _ \<Rightarrow> Some (File (Content None [[''Filename'', ''Start Time'', ''End Time'']])))
      else map_of fs1 p)"
proof -
  let ?csv = "path_join d ''time_ranges.csv''"
  have nd: "\<not> isdir fs1 ?csv"
    using assms(1) by (rule no_subdirs_not_isdir) (simp add: child_name_csv)
  show ?thesis
  proof (cases "map_of fs1 ?csv")
    case None
    then show ?thesis
      unfolding log_opened_def Let_def
      by (auto simp: path_exists_def isfile_def map_of_writerow update_conv')
  next
    case (Some x)
    with nd obtain c where x: "x = File c" by (cases x) (auto simp: isdir_def)
    then show ?thesis
      using Some unfolding log_opened_def Let_def
      by (auto simp: path_exists_def isfile_def)
  qed
qed

lemma num_chunks_ceiling:
  assumes "L > 0"
  shows "nat (int (length a) div (L * 1000) + (if int (length a) mod (L * 1000) > 0 then 1 else 0))
         = chunk_count a L"
proof -
  let ?T = "int (length a)" and ?M = "L * 1000"
  have M: "?M > 0" using assms by simp
  have "\<lceil>rat_of_int ?T / rat_of_int ?M\<rceil> = - ((- ?T) div ?M)"
    by (rule ceiling_divide_eq_div)
  also have "\<dots> = ?T div ?M + (if ?T mod ?M = 0 then 0 else 1)"
    using M by (simp add: zdiv_zminus1_eq_if)
  also have "\<dots> = ?T div ?M + (if ?T mod ?M > 0 then 1 else 0)"
  proof -
    have "0 \<le> ?T mod ?M" using M by (rule pos_mod_sign)
    then show ?thesis by auto
  qed
  finally show ?thesis by (simp add: chunk_count_def)
qed

subsection \<open>The chunks of a track\<close>

lemma lt_chunks_iff:
  fixes i t m :: nat
  assumes "m > 0"
  shows "i < t div m + (if t mod m > 0 then 1 else 0) \<longleftrightarrow> i * m < t"
proof -
  define q r where "q = t div m" and "r = t mod m"
  have t: "t = q * m + r" by (simp add: q_def r_def)
  have r: "r < m" using assms by (simp add: r_def)
  have A: "i < q \<longleftrightarrow> i * m < q * m" using assms by simp
  have C: "q * m + m \<le> i * m" if "q + 1 \<le> i"
  proof -
    have "(q + 1) * m \<le> i * m" using that by (rule mult_le_mono1)
    then show ?thesis by (simp add: add.commute)
  qed
  have goal: "i < q + (if r > 0 then 1 else 0) \<longleftrightarrow> i * m < q * m + r"
  proof (cases "r = 0")
    case True
    then show ?thesis using A by simp
  next
    case False
    have "i < q + 1 \<longleftrightarrow> i * m < q * m + r"
    proof
      assume "i < q + 1"
      then have "i \<le> q" by simp
      then have "i * m \<le> q * m" by (rule mult_le_mono1)
      then show "i * m < q * m + r" using False by linarith
    next
      assume lt: "i * m < q * m + r"
      show "i < q + 1"
      proof (rule ccontr)
        assume "\<not> i < q + 1"
        then have "q * m + m \<le> i * m" using C by simp
        with lt r show False by simp
      qed
    qed
    then show ?thesis using False by simp
  qed
  then have "i < q + (if r > 0 then 1 else 0) \<longleftrightarrow> i * m < t"
    unfolding t[symmetric] .
  then show ?thesis unfolding q_def r_def .
qed

lemma concat_takes:
  "concat (map (\<lambda>i. take m (drop (i * m) a)) [0..<n]) = take (n * m) a"
proof (induction n)
  case 0
  then show ?case by simp
next
  case (Suc n)
  have "Suc n * m = n * m + m" by simp
  then have "take (Suc n * m) a = take (n * m) a @ take m (drop (n * m) a)"
    by (simp only: take_add)
  then show ?case using Suc by simp
qed

lemma chunk_count_nat:
  assumes "L > 0"
  shows "chunk_count a L = length a div nat (L * 1000)
           + (if length a mod nat (L * 1000) > 0 then 1 else 0)"
proof -
  define m where "m = nat (L * 1000)"
  have M: "L * 1000 = int m" using assms by (simp add: m_def)
  have "chunk_count a L = nat (int (length a) div int m + (if int (length a) mod int m > 0 then 1 else 0))"
    using num_chunks_ceiling[OF assms, of a] by (simp add: M)
  also have "\<dots> = length a div m + (if length a mod m > 0 then 1 else 0)"
    by (simp add: zdiv_int[symmetric] zmod_int[symmetric] nat_add_distrib del: of_nat_div of_nat_mod)
  finally show ?thesis by (simp add: m_def)
qed

lemma lt_chunk_count_iff:
  assumes "L > 0"
  shows "i < chunk_count a L \<longleftrightarrow> i * nat (L * 1000) < length a"
  unfolding chunk_count_nat[OF assms] using assms by (intro lt_chunks_iff) simp

lemma slice_ms_nat:
  assumes "k \<le> length a"
  shows "slice_ms a (int k) (int e) = take (min e (length a) - k) (drop k a)"
proof -
  have s: "min (int k) (int (length a)) = int k" using assms by simp
  have e: "min (int e) (int (length a)) = int (min e (length a))" by simp
  have d: "nat (int (min e (length a)) - int k) = min e (length a) - k" by simp
  show ?thesis unfolding slice_ms_def Let_def s e d by simp
qed

lemma chunk_of_take_drop:
  assumes "L > 0" "i < chunk_count a L"
  shows "chunk_of a L i = take (nat (L * 1000)) (drop (i * nat (L * 1000)) a)"
proof -
  define m where "m = nat (L * 1000)"
  have M: "L * 1000 = int m" using assms by (simp add: m_def)
  have lt: "i * m < length a" using assms lt_chunk_count_iff m_def by blast
  have s: "int i * L * 1000 = int (i * m)" by (simp add: M[symmetric] mult.assoc)
  have c: "chunk_of a L i = slice_ms a (int (i * m)) (min (int (i * m) + int m) (int (length a)))"
    unfolding chunk_of_def s by (simp add: M)
  have e: "min (int (i * m) + int m) (int (length a)) = int (min (i * m + m) (length a))"
    unfolding of_nat_min of_nat_add ..
  have sl: "slice_ms a (int (i * m)) (int (min (i * m + m) (length a))) =
      take (min (min (i * m + m) (length a)) (length a) - i * m) (drop (i * m) a)"
    using lt by (intro slice_ms_nat) simp
  have mn: "min (min (i * m + m) (length a)) (length a) - i * m = min m (length a - i * m)"
    using lt by (simp add: min_def) linarith
  have "chunk_of a L i = take (min m (length a - i * m)) (drop (i * m) a)"
    unfolding c e sl mn ..
  also have "\<dots> = take m (drop (i * m) a)"
    by (simp add: min_def)
  finally show ?thesis by (simp add: m_def)
qed

lemma concat_chunks:
  assumes "L > 0"
  shows "concat (map (chunk_of a L) [0..<chunk_count a L]) = a"
proof -
  define m where "m = nat (L * 1000)"
  have "\<not> chunk_count a L < chunk_count a L" by simp
  then have ge: "length a \<le> chunk_count a L * m"
    unfolding lt_chunk_count_iff[OF assms] m_def by simp
  have "chunk_of a L i = take m (drop (i * m) a)" if "i < chunk_count a L" for i
    using chunk_of_take_drop[OF assms that] by (simp add: m_def)
  then have meq: "map (chunk_of a L) [0..<chunk_count a L] =
        map (\<lambda>i. take m (drop (i * m) a)) [0..<chunk_count a L]"
    by (intro map_cong) auto
  show ?thesis unfolding meq concat_takes using ge by simp
qed

lemma length_chunk_of:
  assumes "L > 0" "i < chunk_count a L"
  shows "length (chunk_of a L i) = (if Suc i < chunk_count a L then nat (L * 1000)
                                    else length a - i * nat (L * 1000))"
    and "0 < length (chunk_of a L i)" and "length (chunk_of a L i) \<le> nat (L * 1000)"
proof -
  define m where "m = nat (L * 1000)"
  have m: "m > 0" using assms by (simp add: m_def)
  have lt: "i * m < length a" using assms lt_chunk_count_iff m_def by blast
  have len: "length (chunk_of a L i) = min m (length a - i * m)"
    using chunk_of_take_drop[OF assms] by (simp add: m_def min.commute)
  show "0 < length (chunk_of a L i)" "length (chunk_of a L i) \<le> nat (L * 1000)"
    using len lt m by (simp_all add: m_def)
  show "length (chunk_of a L i) = (if Suc i < chunk_count a L then nat (L * 1000)
                                    else length a - i * nat (L * 1000))"
  proof (cases "Suc i < chunk_count a L")
    case True
    then have "Suc i * m < length a" using lt_chunk_count_iff[OF assms(1)] m_def by blast
    then show ?thesis using True len by (simp add: m_def)
  next
    case False
    then have "\<not> Suc i * m < length a" using lt_chunk_count_iff[OF assms(1)] m_def by blast
    then show ?thesis using False len by (simp add: m_def)
  qed
qed

subsection \<open>The loop of \<open>vocal_only.py\<close>\<close>

lemma slice_ms_min: "slice_ms a s (min e (int (length a))) = slice_ms a s e"
  by (simp add: slice_ms_def)

lemma chunk_loop_vocal_only_Cons:
  assumes "no_subdirs (files w) d"
  shows "chunk_loop_vocal_only a d L (i # rest) (s + int i) w =
         chunk_loop_vocal_only a d L rest (s + int i + 1) (chunk_step_vocal_only a d L s i w)"
proof -
  have "\<not> isdir (files w) (path_join d (vocal_name (s + int i)))"
    using assms by (rule no_subdirs_not_isdir) (simp add: child_name_vocal)
  then show ?thesis
    by (simp add: write_file_def chunk_step_vocal_only_def chunk_of_def Let_def slice_ms_min)
qed

lemma no_subdirs_chunk_step_vocal_only:
  assumes "no_subdirs (files w) d"
  shows "no_subdirs (files (chunk_step_vocal_only a d L s i w)) d"
  using assms by (simp add: chunk_step_vocal_only_def say_def no_subdirs_update_file)

lemma chunk_loop_vocal_only_foldl:
  assumes "no_subdirs (files w) d" "k \<le> n"
  shows "chunk_loop_vocal_only a d L [k..<n] (s + int k) w =
         (Inr (s + int n), foldl (\<lambda>w i. chunk_step_vocal_only a d L s i w) w [k..<n])"
  using assms
proof (induction "n - k" arbitrary: k w)
  case 0
  then show ?case by simp
next
  case (Suc m)
  then have kn: "k < n" and m: "m = n - Suc k" by auto
  have ns: "no_subdirs (files (chunk_step_vocal_only a d L s k w)) d"
    using Suc.prems(1) by (rule no_subdirs_chunk_step_vocal_only)
  have eq: "s + int k + 1 = s + int (Suc k)" by simp
  have up: "[k..<n] = k # [Suc k..<n]" using kn by (rule upt_conv_Cons)
  have "chunk_loop_vocal_only a d L [k..<n] (s + int k) w =
        chunk_loop_vocal_only a d L [Suc k..<n] (s + int (Suc k)) (chunk_step_vocal_only a d L s k w)"
    unfolding up chunk_loop_vocal_only_Cons[OF Suc.prems(1)] eq ..
  also have "\<dots> = (Inr (s + int n),
       foldl (\<lambda>w i. chunk_step_vocal_only a d L s i w) (chunk_step_vocal_only a d L s k w) [Suc k..<n])"
    using Suc.hyps(1)[OF m ns] kn by simp
  also have "foldl (\<lambda>w i. chunk_step_vocal_only a d L s i w) (chunk_step_vocal_only a d L s k w) [Suc k..<n] =
       foldl (\<lambda>w i. chunk_step_vocal_only a d L s i w) w [k..<n]"
    unfolding up by simp
  finally show ?case .
qed

lemma chunk_steps_vocal_only_Suc:
  "chunk_steps_vocal_only a d L s (Suc n) w =
   chunk_step_vocal_only a d L s n (chunk_steps_vocal_only a d L s n w)"
  by (simp add: chunk_steps_vocal_only_def)

lemma chunk_steps_vocal_only_0: "chunk_steps_vocal_only a d L s 0 w = w"
  by (simp add: chunk_steps_vocal_only_def)

lemma stdout_chunk_steps_vocal_only:
  "stdout (chunk_steps_vocal_only a d L s n w) =
   stdout w @ map (\<lambda>i. ''Exported '' @ vocal_name (s + int i)) [0..<n]"
  by (induction n)
     (simp_all add: chunk_steps_vocal_only_0 chunk_steps_vocal_only_Suc chunk_step_vocal_only_def say_def)

lemma map_of_chunk_step_vocal_only:
  "map_of (files (chunk_step_vocal_only a d L s i w)) p =
     (if p = path_join d (vocal_name (s + int i)) then
        Some (File (Content (Some (chunk_of a L i)) []))
      else map_of (files w) p)"
  by (simp add: chunk_step_vocal_only_def say_def update_conv')

lemma chunk_file_chunk_steps_vocal_only:
  assumes "i < n"
  shows "map_of (files (chunk_steps_vocal_only a d L s n w)) (path_join d (vocal_name (s + int i))) =
         Some (File (Content (Some (chunk_of a L i)) []))"
  using assms
proof (induction n)
  case 0
  then show ?case by simp
next
  case (Suc n)
  show ?case
  proof (cases "i = n")
    case True
    then show ?thesis
      by (simp add: chunk_steps_vocal_only_Suc map_of_chunk_step_vocal_only)
  next
    case False
    then have "i < n" using Suc.prems by simp
    moreover have "path_join d (vocal_name (s + int i)) \<noteq> path_join d (vocal_name (s + int n))"
      using False vocal_path_inj[of d "s + int i" "s + int n"] by auto
    ultimately show ?thesis
      using Suc.IH
      by (simp add: chunk_steps_vocal_only_Suc map_of_chunk_step_vocal_only)
  qed
qed

lemma other_chunk_steps_vocal_only:
  assumes "\<forall>i < n. p \<noteq> path_join d (vocal_name (s + int i))"
  shows "map_of (files (chunk_steps_vocal_only a d L s n w)) p = map_of (files w) p"
  using assms
  by (induction n)
     (simp_all add: chunk_steps_vocal_only_0 chunk_steps_vocal_only_Suc map_of_chunk_step_vocal_only)

lemma num_chunks_vocal_only:
  assumes "L \<noteq> 0"
  shows "floordiv (rat_of_int T / 1000) (rat_of_int L)
           + (if floatmod (rat_of_int T / 1000) (rat_of_int L) > 0 then 1 else 0)
         = T div (L * 1000) + (if T mod (L * 1000) > 0 then 1 else 0)"
proof -
  have q: "rat_of_int T / 1000 / rat_of_int L = rat_of_int T / rat_of_int (L * 1000)"
    by (simp add: mult.commute)
  have fd: "floordiv (rat_of_int T / 1000) (rat_of_int L) = T div (L * 1000)"
    unfolding floordiv_def q by (rule floor_divide_of_int_eq)
  have "floatmod (rat_of_int T / 1000) (rat_of_int L)
        = (rat_of_int T - rat_of_int (L * 1000) * rat_of_int (T div (L * 1000))) / 1000"
    using fd unfolding floatmod_def floordiv_def by (simp add: field_simps)
  also have "rat_of_int T - rat_of_int (L * 1000) * rat_of_int (T div (L * 1000))
        = rat_of_int (T mod (L * 1000))"
    by (simp add: minus_mult_div_eq_mod[symmetric] del: minus_mult_div_eq_mod)
  finally have fm: "floatmod (rat_of_int T / 1000) (rat_of_int L) = rat_of_int (T mod (L * 1000)) / 1000" .
  show ?thesis unfolding fd fm by simp
qed

lemma split_wav_file_vocal_only_run:
  assumes "from_wav (files w) input_wav = Inr a" and "L \<noteq> 0"
      and "plain_path d" and "makedirs_exist_ok (files w) d = Inr fs1"
      and "no_subdirs (files w) d"
  shows "split_wav_file_vocal_only w input_wav d L s =
         (Inr (s + int (nat (int (length a) div (L * 1000)
                            + (if int (length a) mod (L * 1000) > 0 then 1 else 0)))),
          chunk_steps_vocal_only a d L s
            (nat (int (length a) div (L * 1000)
                  + (if int (length a) mod (L * 1000) > 0 then 1 else 0)))
            (w\<lparr>files := fs1\<rparr>))"
proof -
  let ?n = "nat (int (length a) div (L * 1000) + (if int (length a) mod (L * 1000) > 0 then 1 else 0))"
  have ns: "no_subdirs (files (w\<lparr>files := fs1\<rparr>)) d"
    using made_no_subdirs[OF assms(3,4,5)] by simp
  have loop: "chunk_loop_vocal_only a d L [0..<?n] (s + int 0) (w\<lparr>files := fs1\<rparr>) =
        (Inr (s + int ?n), chunk_steps_vocal_only a d L s ?n (w\<lparr>files := fs1\<rparr>))"
    unfolding chunk_steps_vocal_only_def using ns by (intro chunk_loop_vocal_only_foldl) auto
  have "split_wav_file_vocal_only w input_wav d L s =
        chunk_loop_vocal_only a d L [0..<?n] s (w\<lparr>files := fs1\<rparr>)"
    unfolding split_wav_file_vocal_only_def assms(1) assms(4)
    using assms(2) num_chunks_vocal_only[OF assms(2), of "int (length a)"]
    by (simp add: Let_def del: upt_Suc)
  then show ?thesis using loop by simp
qed

subsection \<open>What a split leaves behind\<close>

lemma split_wav_file_eq:
  assumes "from_wav (files w) input_wav = Inr a" and "L \<noteq> 0"
      and "plain_path d" and "makedirs_exist_ok (files w) d = Inr fs1"
      and "no_subdirs (files w) d"
  shows "split_wav_file w input_wav d L s =
         (Inr (s + int (nat (num_chunks a L))),
          chunk_steps a d L s (nat (num_chunks a L)) (w\<lparr>files := log_opened fs1 d\<rparr>))"
  unfolding num_chunks_def using assms by (rule split_wav_file_run)

lemma split_wav_file_vocal_only_eq:
  assumes "from_wav (files w) input_wav = Inr a" and "L \<noteq> 0"
      and "plain_path d" and "makedirs_exist_ok (files w) d = Inr fs1"
      and "no_subdirs (files w) d"
  shows "split_wav_file_vocal_only w input_wav d L s =
         (Inr (s + int (nat (num_chunks a L))),
          chunk_steps_vocal_only a d L s (nat (num_chunks a L)) (w\<lparr>files := fs1\<rparr>))"
  unfolding num_chunks_def using assms by (rule split_wav_file_vocal_only_run)

lemma num_chunks_chunk_count: "L > 0 \<Longrightarrow> nat (num_chunks a L) = chunk_count a L"
  unfolding num_chunks_def by (rule num_chunks_ceiling)

lemma audio_at_split:
  assumes "from_wav (files w) input_wav = Inr a" and "L \<noteq> 0"
      and "plain_path d" and "makedirs_exist_ok (files w) d = Inr fs1"
      and "no_subdirs (files w) d"
      and "i < nat (num_chunks a L)"
  shows "audio_at (snd (split_wav_file w input_wav d L s)) (path_join d (vocal_name (s + int i)))
           = Some (chunk_of a L i)"
    and "audio_at (snd (split_wav_file_vocal_only w input_wav d L s)) (path_join d (vocal_name (s + int i)))
           = Some (chunk_of a L i)"
  unfolding split_wav_file_eq[OF assms(1-5)] split_wav_file_vocal_only_eq[OF assms(1-5)]
  using assms(6) by (simp_all add: audio_at_def chunk_file_chunk_steps chunk_file_chunk_steps_vocal_only)

lemma stdout_split:
  assumes "from_wav (files w) input_wav = Inr a" and "L \<noteq> 0"
      and "plain_path d" and "makedirs_exist_ok (files w) d = Inr fs1"
      and "no_subdirs (files w) d"
  shows "stdout (snd (split_wav_file w input_wav d L s))
           = stdout w @ map (chunk_line a L s) [0..<nat (num_chunks a L)]"
    and "stdout (snd (split_wav_file_vocal_only w input_wav d L s))
           = stdout w @ map (\<lambda>i. ''Exported '' @ vocal_name (s + int i)) [0..<nat (num_chunks a L)]"
  unfolding split_wav_file_eq[OF assms(1-5)] split_wav_file_vocal_only_eq[OF assms(1-5)]
  by (simp_all add: stdout_chunk_steps stdout_chunk_steps_vocal_only)

lemma other_paths_split:
  assumes "from_wav (files w) input_wav = Inr a" and "L \<noteq> 0"
      and "plain_path d" and "makedirs_exist_ok (files w) d = Inr fs1"
      and "no_subdirs (files w) d"
      and "p \<notin> set (ancestors d) \<and> p \<noteq> d"
      and "\<forall>i < nat (num_chunks a L). p \<noteq> path_join d (vocal_name (s + int i))"
  shows "p \<noteq> path_join d ''time_ranges.csv'' \<Longrightarrow>
           map_of (files (snd (split_wav_file w input_wav d L s))) p = map_of (files w) p"
    and "map_of (files (snd (split_wav_file_vocal_only w input_wav d L s))) p = map_of (files w) p"
proof -
  have m: "map_of fs1 p = map_of (files w) p"
    using assms(3,4) assms(6) by (intro made_map_of) auto
  have ns1: "no_subdirs fs1 d" using assms(3,4,5) by (rule made_no_subdirs)
  show "map_of (files (snd (split_wav_file_vocal_only w input_wav d L s))) p = map_of (files w) p"
    unfolding split_wav_file_vocal_only_eq[OF assms(1-5)]
    using assms(7) m by (simp add: other_chunk_steps_vocal_only)
  assume "p \<noteq> path_join d ''time_ranges.csv''"
  then show "map_of (files (snd (split_wav_file w input_wav d L s))) p = map_of (files w) p"
    unfolding split_wav_file_eq[OF assms(1-5)]
    using assms(7) m by (simp add: other_chunk_steps map_of_log_opened[OF ns1])
qed

lemma made_dir_split:
  assumes "from_wav (files w) input_wav = Inr a" and "L \<noteq> 0"
      and "plain_path d" and "makedirs_exist_ok (files w) d = Inr fs1"
      and "no_subdirs (files w) d"
  shows "isdir (files (snd (split_wav_file w input_wav d L s))) d"
    and "isdir (files (snd (split_wav_file_vocal_only w input_wav d L s))) d"
proof -
  from assms(3,4) have dir: "isdir fs1 d" by (rule makedirs_exist_ok_store)
  have ns1: "no_subdirs fs1 d" using assms(3,4,5) by (rule made_no_subdirs)
  have nv: "\<forall>i < n. d \<noteq> path_join d (vocal_name (s + int i))" for n
    using vocal_path_neq_dir[of d] by metis
  have "map_of (files (snd (split_wav_file w input_wav d L s))) d = map_of fs1 d"
    unfolding split_wav_file_eq[OF assms(1-5)]
    using nv csv_neq_dir[of d]
    by (simp add: other_chunk_steps map_of_log_opened[OF ns1] eq_commute[of d])
  then show "isdir (files (snd (split_wav_file w input_wav d L s))) d"
    using dir by (simp add: isdir_def)
  have "map_of (files (snd (split_wav_file_vocal_only w input_wav d L s))) d = map_of fs1 d"
    unfolding split_wav_file_vocal_only_eq[OF assms(1-5)]
    using nv by (simp add: other_chunk_steps_vocal_only)
  then show "isdir (files (snd (split_wav_file_vocal_only w input_wav d L s))) d"
    using dir by (simp add: isdir_def)
qed

lemma rows_at_split:
  assumes "from_wav (files w) input_wav = Inr a" and "L \<noteq> 0"
      and "plain_path d" and "makedirs_exist_ok (files w) d = Inr fs1"
      and "no_subdirs (files w) d"
  shows "rows_at (snd (split_wav_file w input_wav d L s)) (path_join d ''time_ranges.csv'') =
         rows_at w (path_join d ''time_ranges.csv'')
         @ (if isfile (files w) (path_join d ''time_ranges.csv'') then []
            else [[''Filename'', ''Start Time'', ''End Time'']])
         @ map (chunk_row a L s) [0..<nat (num_chunks a L)]"
proof -
  let ?csv = "path_join d ''time_ranges.csv''"
  let ?w0 = "w\<lparr>files := log_opened fs1 d\<rparr>"
  have ns1: "no_subdirs fs1 d" using assms(3,4,5) by (rule made_no_subdirs)
  have "length d < length ?csv" by (rule path_join_child_longer) auto
  with assms(3,4) have m: "map_of fs1 ?csv = map_of (files w) ?csv"
    by (rule made_map_of_longer)
  have nd: "\<not> isdir (files w) ?csv"
    using assms(5) by (rule no_subdirs_not_isdir) (simp add: child_name_csv)
  show ?thesis
  proof (cases "map_of (files w) ?csv")
    case None
    then have "map_of (files ?w0) ?csv = Some (File (Content None [[''Filename'', ''Start Time'', ''End Time'']]))"
      using m by (simp add: map_of_log_opened[OF ns1])
    then have "map_of (files (chunk_steps a d L s (nat (num_chunks a L)) ?w0)) ?csv =
       Some (File (Content None ([[''Filename'', ''Start Time'', ''End Time'']]
                @ map (chunk_row a L s) [0..<nat (num_chunks a L)])))"
      by (rule csv_chunk_steps)
    then show ?thesis
      unfolding split_wav_file_eq[OF assms(1-5)] using None
      by (simp add: rows_at_def isfile_def)
  next
    case (Some x)
    with nd obtain c where x: "x = File c" by (cases x) (auto simp: isdir_def)
    then have "map_of (files ?w0) ?csv = Some (File (Content (audio c) (rows c)))"
      using Some m by (simp add: map_of_log_opened[OF ns1])
    then have "map_of (files (chunk_steps a d L s (nat (num_chunks a L)) ?w0)) ?csv =
       Some (File (Content (audio c) (rows c @ map (chunk_row a L s) [0..<nat (num_chunks a L)])))"
      by (rule csv_chunk_steps)
    then show ?thesis
      unfolding split_wav_file_eq[OF assms(1-5)] using Some x
      by (simp add: rows_at_def isfile_def)
  qed
qed

section \<open>Properties of the segmenter\<close>

lemma sum_length_chunks:
  assumes "L > 0"
  shows "sum_list (map (\<lambda>i. length (chunk_of a L i)) [0..<chunk_count a L]) = length a"
proof -
  have "length (concat (map (chunk_of a L) [0..<chunk_count a L])) = length a"
    by (simp only: concat_chunks[OF assms])
  then show ?thesis by (simp add: length_concat comp_def)
qed

text \<open>
  C3. Let the track decode to audio of \<open>T\<close> milliseconds and let the chunk length be
  \<open>L > 0\<close> seconds, that is \<open>1000 L\<close> milliseconds; let the output directory be one the
  program can write to (its path is a plain path, \<open>os.makedirs\<close> succeeds on it, and
  none of its entries is a directory). Then both versions of \<open>split_wav_file\<close> export exactly
  \<open>ceil(T / (1000 L))\<close> chunks, in order; the chunk with index \<open>i\<close> is the slice from
  \<open>i * 1000 L\<close> to \<open>min((i + 1) * 1000 L, T)\<close>; every chunk but the last has length
  \<open>1000 L\<close>, none is empty or longer, and the chunks put together are the track, so that
  their lengths add up to \<open>T\<close>.
\<close>

theorem split_wav_file_chunks:
  assumes "from_wav (files w) input_wav = Inr a" and "0 < L"
      and "plain_path d" and "makedirs_exist_ok (files w) d = Inr fs1"
      and "no_subdirs (files w) d"
  shows "stdout (snd (split_wav_file w input_wav d L s))
           = stdout w @ map (chunk_line a L s) [0..<chunk_count a L]
       \<and> stdout (snd (split_wav_file_vocal_only w input_wav d L s))
           = stdout w @ map (\<lambda>i. ''Exported '' @ vocal_name (s + int i)) [0..<chunk_count a L]
       \<and> (\<forall>i < chunk_count a L.
             audio_at (snd (split_wav_file w input_wav d L s)) (path_join d (vocal_name (s + int i)))
               = Some (chunk_of a L i)
           \<and> audio_at (snd (split_wav_file_vocal_only w input_wav d L s))
                (path_join d (vocal_name (s + int i)))
               = Some (chunk_of a L i)
           \<and> chunk_of a L i = take (nat (L * 1000)) (drop (i * nat (L * 1000)) a)
           \<and> 0 < length (chunk_of a L i)
           \<and> length (chunk_of a L i) \<le> nat (L * 1000)
           \<and> (Suc i < chunk_count a L \<longrightarrow> length (chunk_of a L i) = nat (L * 1000)))
       \<and> concat (map (chunk_of a L) [0..<chunk_count a L]) = a
       \<and> sum_list (map (\<lambda>i. length (chunk_of a L i)) [0..<chunk_count a L]) = length a"
proof -
  have L: "L \<noteq> 0" using assms(2) by simp
  have n: "nat (num_chunks a L) = chunk_count a L"
    using assms(2) by (rule num_chunks_chunk_count)
  have 1: "stdout (snd (split_wav_file w input_wav d L s))
           = stdout w @ map (chunk_line a L s) [0..<chunk_count a L]"
    using stdout_split(1)[OF assms(1) L assms(3-5)] unfolding n .
  have 2: "stdout (snd (split_wav_file_vocal_only w input_wav d L s))
           = stdout w @ map (\<lambda>i. ''Exported '' @ vocal_name (s + int i)) [0..<chunk_count a L]"
    using stdout_split(2)[OF assms(1) L assms(3-5)] unfolding n .
  have 3: "audio_at (snd (split_wav_file w input_wav d L s)) (path_join d (vocal_name (s + int i)))
               = Some (chunk_of a L i)"
     and 4: "audio_at (snd (split_wav_file_vocal_only w input_wav d L s))
                (path_join d (vocal_name (s + int i))) = Some (chunk_of a L i)"
    if "i < chunk_count a L" for i
    using audio_at_split[OF assms(1) L assms(3-5), of i s] that unfolding n by simp_all
  have 5: "chunk_of a L i = take (nat (L * 1000)) (drop (i * nat (L * 1000)) a)"
    if "i < chunk_count a L" for i
    using assms(2) that by (rule chunk_of_take_drop)
  have 6: "0 < length (chunk_of a L i)" "length (chunk_of a L i) \<le> nat (L * 1000)"
    "Suc i < chunk_count a L \<longrightarrow> length (chunk_of a L i) = nat (L * 1000)"
    if "i < chunk_count a L" for i
    using length_chunk_of[OF assms(2) that] by simp_all
  show ?thesis
    using 1 2 3 4 5 6 concat_chunks[OF assms(2), of a] sum_length_chunks[OF assms(2), of a]
    by blast
qed

theorem split_wav_file_chunks_witness:
  "stdout (snd (split_wav_file
       \<lparr>files = [(''in.wav'', File (Content (Some (replicate 2500 ())) []))], stdout = []\<rparr>
       ''in.wav'' ''clips/out'' 1 1))
     = [''Exported vocal1.wav (from 00:00:00 to 00:00:01)'',
        ''Exported vocal2.wav (from 00:00:01 to 00:00:02)'',
        ''Exported vocal3.wav (from 00:00:02 to 00:00:02)'']
   \<and> audio_at (snd (split_wav_file_vocal_only
       \<lparr>files = [(''in.wav'', File (Content (Some (replicate 2500 ())) []))], stdout = []\<rparr>
       ''in.wav'' ''clips/out'' 1 1)) ''clips/out/vocal3.wav'' = Some (chunk_of (replicate 2500 ()) 1 2)
   \<and> length (chunk_of (replicate 2500 ()) 1 0) = 1000
   \<and> sum_list (map (\<lambda>i. length (chunk_of (replicate 2500 ()) 1 i)) [0..<3]) = 2500"
proof -
  let ?w = "\<lparr>files = [(''in.wav'', File (Content (Some (replicate 2500 ())) []))], stdout = []\<rparr> :: unit world"
  let ?a = "replicate 2500 ()"
  have h1: "from_wav (files ?w) ''in.wav'' = Inr ?a" by (simp add: from_wav_def)
  have h2: "0 < (1::int)" by simp
  have h3: "plain_path ''clips/out''" by code_simp
  have h4: "makedirs_exist_ok (files ?w) ''clips/out''
              = Inr (files ?w @ [(''clips'', Dir), (''clips/out'', Dir)])" by code_simp
  have h5: "no_subdirs (files ?w) ''clips/out''" by (simp add: no_subdirs_def)
  note t = split_wav_file_chunks[OF h1 h2 h3 h4 h5, of 1]
  have n: "chunk_count ?a 1 = 3" using chunk_count_nat[OF h2, of ?a] by simp
  have l: "stdout ?w @ map (chunk_line ?a 1 1) [0..<3] =
      [''Exported vocal1.wav (from 00:00:00 to 00:00:01)'',
        ''Exported vocal2.wav (from 00:00:01 to 00:00:02)'',
        ''Exported vocal3.wav (from 00:00:02 to 00:00:02)'']" by code_simp
  have p: "path_join ''clips/out'' (vocal_name (1 + int 2)) = ''clips/out/vocal3.wav''" by code_simp
  have A: "stdout (snd (split_wav_file ?w ''in.wav'' ''clips/out'' 1 1)) =
      [''Exported vocal1.wav (from 00:00:00 to 00:00:01)'',
        ''Exported vocal2.wav (from 00:00:01 to 00:00:02)'',
        ''Exported vocal3.wav (from 00:00:02 to 00:00:02)'']"
    using t[THEN conjunct1] unfolding n l .
  have "2 < chunk_count ?a 1" "Suc 0 < chunk_count ?a 1" "0 < chunk_count ?a 1" unfolding n by simp_all
  with t have "audio_at (snd (split_wav_file_vocal_only ?w ''in.wav'' ''clips/out'' 1 1))
                (path_join ''clips/out'' (vocal_name (1 + int 2))) = Some (chunk_of ?a 1 2)"
     and "length (chunk_of ?a 1 0) = nat (1 * 1000)"
    by blast+
  then have B: "audio_at (snd (split_wav_file_vocal_only ?w ''in.wav'' ''clips/out'' 1 1)) ''clips/out/vocal3.wav''
      = Some (chunk_of ?a 1 2)" and C: "length (chunk_of ?a 1 0) = 1000"
    unfolding p by simp_all
  have D: "sum_list (map (\<lambda>i. length (chunk_of ?a 1 i)) [0..<3]) = 2500"
    using t unfolding n by simp
  from A B C D show ?thesis by blast
qed

lemma distinct_vocal_names: "distinct (map (\<lambda>i. vocal_name (s + int i)) [0..<n])"
  by (auto simp: distinct_map inj_on_def dest: vocal_name_inj)

text \<open>
  C4. In every call of \<open>split_wav_file\<close> (of either script) that runs to its end, with
  \<open>num_chunks\<close> chunks exported, the chunk with index \<open>i\<close> is written to
  \<open>vocal{start_number + i}.wav\<close> in the output directory, for
  \<open>i = 0, ..., num_chunks - 1\<close> in that order; these names are pairwise different, no
  other path changes apart from the log and the directories that had to be made, the
  output directory exists afterwards, and the call returns
  \<open>start_number + num_chunks\<close>. The call runs to its end when the track decodes, the
  chunk length is not 0, the output directory is a plain path on which \<open>os.makedirs\<close>
  succeeds, and none of its entries is a directory.
\<close>

theorem split_wav_file_numbering:
  assumes "from_wav (files w) input_wav = Inr a" and "L \<noteq> 0"
      and "plain_path d" and "makedirs_exist_ok (files w) d = Inr fs1"
      and "no_subdirs (files w) d"
  shows "fst (split_wav_file w input_wav d L s) = Inr (s + int (nat (num_chunks a L)))
       \<and> fst (split_wav_file_vocal_only w input_wav d L s) = Inr (s + int (nat (num_chunks a L)))
       \<and> stdout (snd (split_wav_file w input_wav d L s))
           = stdout w @ map (chunk_line a L s) [0..<nat (num_chunks a L)]
       \<and> stdout (snd (split_wav_file_vocal_only w input_wav d L s))
           = stdout w @ map (\<lambda>i. ''Exported '' @ vocal_name (s + int i)) [0..<nat (num_chunks a L)]
       \<and> (\<forall>i < nat (num_chunks a L).
             audio_at (snd (split_wav_file w input_wav d L s)) (path_join d (vocal_name (s + int i)))
               = Some (chunk_of a L i)
           \<and> audio_at (snd (split_wav_file_vocal_only w input_wav d L s))
                (path_join d (vocal_name (s + int i)))
               = Some (chunk_of a L i))
       \<and> distinct (map (\<lambda>i. vocal_name (s + int i)) [0..<nat (num_chunks a L)])
       \<and> (\<forall>p. (p \<notin> set (ancestors d) \<and> p \<noteq> d)
              \<and> (\<forall>i < nat (num_chunks a L). p \<noteq> path_join d (vocal_name (s + int i))) \<longrightarrow>
              (p \<noteq> path_join d ''time_ranges.csv'' \<longrightarrow>
                 map_of (files (snd (split_wav_file w input_wav d L s))) p = map_of (files w) p)
            \<and> map_of (files (snd (split_wav_file_vocal_only w input_wav d L s))) p = map_of (files w) p)
       \<and> isdir (files (snd (split_wav_file w input_wav d L s))) d
       \<and> isdir (files (snd (split_wav_file_vocal_only w input_wav d L s))) d"
proof -
  have 1: "fst (split_wav_file w input_wav d L s) = Inr (s + int (nat (num_chunks a L)))"
    by (simp add: split_wav_file_eq[OF assms])
  have 2: "fst (split_wav_file_vocal_only w input_wav d L s) = Inr (s + int (nat (num_chunks a L)))"
    by (simp add: split_wav_file_vocal_only_eq[OF assms])
  have 3: "map_of (files (snd (split_wav_file w input_wav d L s))) p = map_of (files w) p"
    if "p \<notin> set (ancestors d) \<and> p \<noteq> d"
      "\<forall>i < nat (num_chunks a L). p \<noteq> path_join d (vocal_name (s + int i))"
      "p \<noteq> path_join d ''time_ranges.csv''" for p
    using other_paths_split(1)[OF assms that] .
  have 4: "map_of (files (snd (split_wav_file_vocal_only w input_wav d L s))) p = map_of (files w) p"
    if "p \<notin> set (ancestors d) \<and> p \<noteq> d"
      "\<forall>i < nat (num_chunks a L). p \<noteq> path_join d (vocal_name (s + int i))" for p
    using other_paths_split(2)[OF assms that] .
  have 5: "\<forall>p. (p \<notin> set (ancestors d) \<and> p \<noteq> d)
              \<and> (\<forall>i < nat (num_chunks a L). p \<noteq> path_join d (vocal_name (s + int i))) \<longrightarrow>
              (p \<noteq> path_join d ''time_ranges.csv'' \<longrightarrow>
                 map_of (files (snd (split_wav_file w input_wav d L s))) p = map_of (files w) p)
            \<and> map_of (files (snd (split_wav_file_vocal_only w input_wav d L s))) p = map_of (files w) p"
    using 3 4 by blast
  have 6: "\<forall>i < nat (num_chunks a L).
             audio_at (snd (split_wav_file w input_wav d L s)) (path_join d (vocal_name (s + int i)))
               = Some (chunk_of a L i)
           \<and> audio_at (snd (split_wav_file_vocal_only w input_wav d L s))
                (path_join d (vocal_name (s + int i)))
               = Some (chunk_of a L i)"
    using audio_at_split[OF assms] by blast
  show ?thesis
    using 1 2 stdout_split[OF assms] 5 6 made_dir_split[OF assms]
      distinct_vocal_names[of s "nat (num_chunks a L)"]
    by blast
qed

theorem split_wav_file_numbering_witness:
  "fst (split_wav_file
       \<lparr>files = [(''in.wav'', File (Content (Some (replicate 2500 ())) []))], stdout = []\<rparr>
       ''in.wav'' ''out'' 1 7) = Inr 10
   \<and> stdout (snd (split_wav_file_vocal_only
       \<lparr>files = [(''in.wav'', File (Content (Some (replicate 2500 ())) []))], stdout = []\<rparr>
       ''in.wav'' ''out'' 1 7))
     = [''Exported vocal7.wav'', ''Exported vocal8.wav'', ''Exported vocal9.wav'']
   \<and> audio_at (snd (split_wav_file
       \<lparr>files = [(''in.wav'', File (Content (Some (replicate 2500 ())) []))], stdout = []\<rparr>
       ''in.wav'' ''out'' 1 7)) ''out/vocal8.wav'' = Some (chunk_of (replicate 2500 ()) 1 1)"
proof -
  let ?w = "\<lparr>files = [(''in.wav'', File (Content (Some (replicate 2500 ())) []))], stdout = []\<rparr> :: unit world"
  let ?a = "replicate 2500 ()"
  have h1: "from_wav (files ?w) ''in.wav'' = Inr ?a" by (simp add: from_wav_def)
  have h2: "(1::int) \<noteq> 0" by simp
  have h3: "plain_path ''out''" by code_simp
  have h4: "makedirs_exist_ok (files ?w) ''out'' = Inr (files ?w @ [(''out'', Dir)])" by code_simp
  have h5: "no_subdirs (files ?w) ''out''" by (simp add: no_subdirs_def)
  note t = split_wav_file_numbering[OF h1 h2 h3 h4 h5, of 7]
  have n: "nat (num_chunks ?a 1) = 3" by (simp add: num_chunks_def)
  have l: "stdout ?w @ map (\<lambda>i. ''Exported '' @ vocal_name (7 + int i)) [0..<3] =
      [''Exported vocal7.wav'', ''Exported vocal8.wav'', ''Exported vocal9.wav'']" by code_simp
  have p: "path_join ''out'' (vocal_name (7 + int 1)) = ''out/vocal8.wav''" by code_simp
  have A: "fst (split_wav_file ?w ''in.wav'' ''out'' 1 7) = Inr 10"
    using t[THEN conjunct1] unfolding n by simp
  have B: "stdout (snd (split_wav_file_vocal_only ?w ''in.wav'' ''out'' 1 7)) =
      [''Exported vocal7.wav'', ''Exported vocal8.wav'', ''Exported vocal9.wav'']"
    using t[THEN conjunct2, THEN conjunct2, THEN conjunct2, THEN conjunct1] unfolding n l .
  have "1 < nat (num_chunks ?a 1)" unfolding n by simp
  with t have "audio_at (snd (split_wav_file ?w ''in.wav'' ''out'' 1 7))
                (path_join ''out'' (vocal_name (7 + int 1))) = Some (chunk_of ?a 1 1)"
    by blast
  then have C: "audio_at (snd (split_wav_file ?w ''in.wav'' ''out'' 1 7)) ''out/vocal8.wav''
      = Some (chunk_of ?a 1 1)"
    unfolding p .
  from A B C show ?thesis by blast
qed

text \<open>
  C10. When the track is empty (total duration 0), \<open>split_wav_file\<close> of either script
  returns \<open>start_number\<close> unchanged, prints no export, and writes no chunk file: every
  path other than the log and the directories that had to be made is left as it was, so
  no sequence number is used. The track decodes, the chunk length is not 0, and the
  output directory is a plain path on which \<open>os.makedirs\<close> succeeds, none of its entries
  being a directory.
\<close>

theorem split_wav_file_empty_track:
  assumes "from_wav (files w) input_wav = Inr []" and "L \<noteq> 0"
      and "plain_path d" and "makedirs_exist_ok (files w) d = Inr fs1"
      and "no_subdirs (files w) d"
  shows "fst (split_wav_file w input_wav d L n) = Inr n
       \<and> fst (split_wav_file_vocal_only w input_wav d L n) = Inr n
       \<and> stdout (snd (split_wav_file w input_wav d L n)) = stdout w
       \<and> stdout (snd (split_wav_file_vocal_only w input_wav d L n)) = stdout w
       \<and> (\<forall>p. p \<notin> set (ancestors d) \<and> p \<noteq> d \<longrightarrow>
              (p \<noteq> path_join d ''time_ranges.csv'' \<longrightarrow>
                 map_of (files (snd (split_wav_file w input_wav d L n))) p = map_of (files w) p)
            \<and> map_of (files (snd (split_wav_file_vocal_only w input_wav d L n))) p = map_of (files w) p)
       \<and> (\<forall>k. map_of (files (snd (split_wav_file w input_wav d L n))) (path_join d (vocal_name k))
                 = map_of (files w) (path_join d (vocal_name k))
            \<and> map_of (files (snd (split_wav_file_vocal_only w input_wav d L n))) (path_join d (vocal_name k))
                 = map_of (files w) (path_join d (vocal_name k)))"
proof -
  have z: "nat (num_chunks ([] :: 'a list) L) = 0" by (simp add: num_chunks_def)
  have 1: "fst (split_wav_file w input_wav d L n) = Inr n"
    by (simp add: split_wav_file_eq[OF assms] z)
  have 2: "fst (split_wav_file_vocal_only w input_wav d L n) = Inr n"
    by (simp add: split_wav_file_vocal_only_eq[OF assms] z)
  have 3: "stdout (snd (split_wav_file w input_wav d L n)) = stdout w"
    "stdout (snd (split_wav_file_vocal_only w input_wav d L n)) = stdout w"
    using stdout_split[OF assms, of n] unfolding z by simp_all
  have 4: "p \<noteq> path_join d ''time_ranges.csv'' \<Longrightarrow>
           map_of (files (snd (split_wav_file w input_wav d L n))) p = map_of (files w) p"
      and 5: "map_of (files (snd (split_wav_file_vocal_only w input_wav d L n))) p = map_of (files w) p"
    if "p \<notin> set (ancestors d) \<and> p \<noteq> d" for p
    using other_paths_split[OF assms that, of n] unfolding z by simp_all
  have v: "path_join d (vocal_name k) \<notin> set (ancestors d) \<and> path_join d (vocal_name k) \<noteq> d" for k
    using ancestors_shorter[of "path_join d (vocal_name k)" d]
      path_join_child_longer[OF vocal_name_child, of d k]
    by auto
  have 6: "map_of (files (snd (split_wav_file w input_wav d L n))) (path_join d (vocal_name k))
                 = map_of (files w) (path_join d (vocal_name k))"
      and 7: "map_of (files (snd (split_wav_file_vocal_only w input_wav d L n))) (path_join d (vocal_name k))
                 = map_of (files w) (path_join d (vocal_name k))" for k
    using 4[OF v vocal_path_neq_csv] 5[OF v] by simp_all
  show ?thesis using 1 2 3 4 5 6 7 by blast
qed

theorem split_wav_file_empty_track_witness:
  "fst (split_wav_file \<lparr>files = [(''in.wav'', File (Content (Some ([] :: unit list)) []))], stdout = []\<rparr>
       ''in.wav'' ''out'' 5 7) = Inr 7
   \<and> fst (split_wav_file_vocal_only \<lparr>files = [(''in.wav'', File (Content (Some ([] :: unit list)) []))], stdout = []\<rparr>
       ''in.wav'' ''out'' 30 7) = Inr 7
   \<and> map_of (files (snd (split_wav_file \<lparr>files = [(''in.wav'', File (Content (Some ([] :: unit list)) []))], stdout = []\<rparr>
       ''in.wav'' ''out'' 5 7))) (path_join ''out'' (vocal_name 7)) = None"
proof -
  let ?w = "\<lparr>files = [(''in.wav'', File (Content (Some ([] :: unit list)) []))], stdout = []\<rparr>"
  have h1: "from_wav (files ?w) ''in.wav'' = Inr []" by (simp add: from_wav_def)
  have h2: "(5::int) \<noteq> 0" "(30::int) \<noteq> 0" by simp_all
  have h3: "plain_path ''out''" by code_simp
  have h4: "makedirs_exist_ok (files ?w) ''out'' = Inr (files ?w @ [(''out'', Dir)])" by code_simp
  have h5: "no_subdirs (files ?w) ''out''" by (simp add: no_subdirs_def)
  have e: "map_of (files ?w) (path_join ''out'' (vocal_name 7)) = None" by code_simp
  from split_wav_file_empty_track[OF h1 h2(1) h3 h4 h5, of 7]
       split_wav_file_empty_track[OF h1 h2(2) h3 h4 h5, of 7] e
  show ?thesis by metis
qed

text \<open>
  When the output directory lies below a regular file, \<open>os.makedirs\<close> raises
  \<open>NotADirectoryError\<close>: the call of either script ends there, and nothing is written.
\<close>

theorem split_below_file_raises:
  "split_wav_file
     \<lparr>files = [(''in.wav'', File (Content (Some [(), ()]) [])), (''f.txt'', File (Content None []))],
      stdout = []\<rparr> ''in.wav'' ''f.txt/out'' 5 7
     = (Inl (NotADirectoryError ''f.txt/out''),
        \<lparr>files = [(''in.wav'', File (Content (Some [(), ()]) [])), (''f.txt'', File (Content None []))],
         stdout = []\<rparr>)
   \<and> split_wav_file_vocal_only
     \<lparr>files = [(''in.wav'', File (Content (Some [(), ()]) [])), (''f.txt'', File (Content None []))],
      stdout = []\<rparr> ''in.wav'' ''f.txt/out'' 5 7
     = (Inl (NotADirectoryError ''f.txt/out''),
        \<lparr>files = [(''in.wav'', File (Content (Some [(), ()]) [])), (''f.txt'', File (Content None []))],
         stdout = []\<rparr>)"
  by code_simp

lemma str_nat_small: "n < 10 \<Longrightarrow> str_nat n = [digit_char n]"
  by (subst str_nat.simps) simp

lemma str_nat_big: "\<not> n < 10 \<Longrightarrow> str_nat n = str_nat (n div 10) @ [digit_char (n mod 10)]"
  by (subst str_nat.simps) simp

lemma length_str_nat_big:
  assumes "\<not> n < 10"
  shows "2 \<le> length (str_nat n)"
proof -
  have "length (str_nat (n div 10)) \<ge> 1"
    using str_nat_nonempty[of "n div 10"] by (cases "str_nat (n div 10)") simp_all
  then show ?thesis unfolding str_nat_big[OF assms] by simp
qed

lemma length_str_nat_two:
  assumes "\<not> n < 10" "n < 100"
  shows "length (str_nat n) = 2"
proof -
  have "n div 10 < 10" using assms(2) by simp
  then have "length (str_nat (n div 10)) = 1" by (simp add: str_nat_small)
  then show ?thesis unfolding str_nat_big[OF assms(1)] by simp
qed

lemma dec_val_zero_Cons: "dec_val (CHR ''0'' # s) = dec_val s"
  by (simp add: dec_val_def digit_val_def)

lemma isdecimal_zero: "isdecimal CHR ''0''"
  by (simp add: isdecimal_def)

lemma fmt02_props:
  assumes "0 \<le> x"
  shows "list_all isdecimal (fmt02 x)" and "2 \<le> length (fmt02 x)"
    and "int (dec_val (fmt02 x)) = x" and "x < 100 \<Longrightarrow> length (fmt02 x) = 2"
proof -
  have p: "py_str x = str_nat (nat x)" using assms by (simp add: py_str_def)
  show "list_all isdecimal (fmt02 x)"
    by (simp add: fmt02_def p str_nat_decimal isdecimal_zero)
  show "int (dec_val (fmt02 x)) = x"
    using assms by (simp add: fmt02_def p dec_val_zero_Cons dec_val_str_nat)
  show "2 \<le> length (fmt02 x)"
  proof (cases "x < 10")
    case True
    then show ?thesis using assms by (simp add: fmt02_def p str_nat_small)
  next
    case False
    then have "\<not> nat x < 10" by simp
    then show ?thesis using False length_str_nat_big by (simp add: fmt02_def p)
  qed
  show "length (fmt02 x) = 2" if "x < 100"
  proof (cases "x < 10")
    case True
    then show ?thesis using assms by (simp add: fmt02_def p str_nat_small)
  next
    case False
    then have "\<not> nat x < 10" "nat x < 100" using that by simp_all
    then show ?thesis using False length_str_nat_two by (simp add: fmt02_def p)
  qed
qed

lemma format_time_fields:
  "format_time ms = fmt02 (ms div 3600000) @ '':'' @ fmt02 (ms div 60000 mod 60) @ '':''
                    @ fmt02 (ms div 1000 mod 60)"
proof -
  have a: "ms div 1000 div 60 = ms div 60000"
    by (simp add: zdiv_zmult2_eq[symmetric])
  have b: "ms div 60000 div 60 = ms div 3600000"
    by (simp add: zdiv_zmult2_eq[symmetric])
  show ?thesis unfolding format_time_def Let_def a b by simp
qed

text \<open>
  C9. After a run of \<open>split_wav_file\<close> of \<open>vocal_only1.py\<close> that produces the log (the
  track decodes, the chunk length is not 0, the output directory is a plain path on
  which \<open>os.makedirs\<close> succeeds, and none of its entries is a directory), the log
  \<open>time_ranges.csv\<close> holds the rows it held before, then the header row
  \<open>Filename, Start Time, End Time\<close> if and only if the log did not exist before the run,
  then one row for each chunk in chunk order, made of the file name and of the formatted
  start and end of the chunk. A time is formatted as hours, minutes and seconds separated
  by colons: each field is a decimal numeral of at least two digits (exactly two below
  100) that spells the whole value of the field, minutes and seconds are taken modulo 60,
  and the hours are not reduced modulo 24.
\<close>

theorem time_range_log_rows:
  assumes "from_wav (files w) input_wav = Inr a" and "L \<noteq> 0"
      and "plain_path d" and "makedirs_exist_ok (files w) d = Inr fs1"
      and "no_subdirs (files w) d"
  shows "rows_at (snd (split_wav_file w input_wav d L s)) (path_join d ''time_ranges.csv'') =
           rows_at w (path_join d ''time_ranges.csv'')
           @ (if isfile (files w) (path_join d ''time_ranges.csv'') then []
              else [[''Filename'', ''Start Time'', ''End Time'']])
           @ map (chunk_row a L s) [0..<nat (num_chunks a L)]
       \<and> (\<forall>i. chunk_row a L s i =
              [vocal_name (s + int i), format_time (int i * L * 1000),
               format_time (min (int i * L * 1000 + L * 1000) (int (length a)))])
       \<and> (\<forall>ms. format_time ms =
              fmt02 (ms div 3600000) @ '':'' @ fmt02 (ms div 60000 mod 60) @ '':''
              @ fmt02 (ms div 1000 mod 60))
       \<and> (\<forall>x \<ge> 0. list_all isdecimal (fmt02 x) \<and> 2 \<le> length (fmt02 x)
              \<and> int (dec_val (fmt02 x)) = x \<and> (x < 100 \<longrightarrow> length (fmt02 x) = 2))"
  using rows_at_split[OF assms, of s] format_time_fields fmt02_props
  by (simp add: chunk_row_def)

theorem time_range_log_rows_witness:
  "rows_at (snd (split_wav_file
       \<lparr>files = [(''in.wav'', File (Content (Some (replicate 2500 ())) []))], stdout = []\<rparr>
       ''in.wav'' ''out'' 1 1)) ''out/time_ranges.csv''
     = [[''Filename'', ''Start Time'', ''End Time''],
        [''vocal1.wav'', ''00:00:00'', ''00:00:01''],
        [''vocal2.wav'', ''00:00:01'', ''00:00:02''],
        [''vocal3.wav'', ''00:00:02'', ''00:00:02'']]
   \<and> rows_at (snd (split_wav_file
       \<lparr>files = [(''in.wav'', File (Content (Some (replicate 2500 ())) [])),
                 (''out'', Dir),
                 (''out/time_ranges.csv'', File (Content None [[''Filename'', ''Start Time'', ''End Time'']]))],
        stdout = []\<rparr>
       ''in.wav'' ''out'' 1 4)) ''out/time_ranges.csv''
     = [[''Filename'', ''Start Time'', ''End Time''],
        [''vocal4.wav'', ''00:00:00'', ''00:00:01''],
        [''vocal5.wav'', ''00:00:01'', ''00:00:02''],
        [''vocal6.wav'', ''00:00:02'', ''00:00:02'']]
   \<and> format_time 360000000 = ''100:00:00''"
proof -
  let ?a = "replicate 2500 ()"
  let ?w = "\<lparr>files = [(''in.wav'', File (Content (Some ?a) []))], stdout = []\<rparr> :: unit world"
  let ?v = "\<lparr>files = [(''in.wav'', File (Content (Some ?a) [])), (''out'', Dir),
                 (''out/time_ranges.csv'', File (Content None [[''Filename'', ''Start Time'', ''End Time'']]))],
        stdout = []\<rparr> :: unit world"
  have h1: "from_wav (files ?w) ''in.wav'' = Inr ?a" by (simp add: from_wav_def)
  have h2: "(1::int) \<noteq> 0" by simp
  have h3: "plain_path ''out''" by code_simp
  have h4: "makedirs_exist_ok (files ?w) ''out'' = Inr (files ?w @ [(''out'', Dir)])" by code_simp
  have h5: "no_subdirs (files ?w) ''out''" by (simp add: no_subdirs_def)
  have g1: "from_wav (files ?v) ''in.wav'' = Inr ?a" by (simp add: from_wav_def)
  have g4: "makedirs_exist_ok (files ?v) ''out'' = Inr (files ?v)" by code_simp
  have g5: "no_subdirs (files ?v) ''out''" by code_simp
  have n: "nat (num_chunks ?a 1) = 3" by (simp add: num_chunks_def)
  have p: "path_join ''out'' ''time_ranges.csv'' = ''out/time_ranges.csv''" by code_simp
  have r1: "rows_at ?w ''out/time_ranges.csv''
           @ (if isfile (files ?w) ''out/time_ranges.csv'' then []
              else [[''Filename'', ''Start Time'', ''End Time'']])
           @ map (chunk_row ?a 1 1) [0..<3] =
       [[''Filename'', ''Start Time'', ''End Time''],
        [''vocal1.wav'', ''00:00:00'', ''00:00:01''],
        [''vocal2.wav'', ''00:00:01'', ''00:00:02''],
        [''vocal3.wav'', ''00:00:02'', ''00:00:02'']]" by code_simp
  have r2: "rows_at ?v ''out/time_ranges.csv''
           @ (if isfile (files ?v) ''out/time_ranges.csv'' then []
              else [[''Filename'', ''Start Time'', ''End Time'']])
           @ map (chunk_row ?a 1 4) [0..<3] =
       [[''Filename'', ''Start Time'', ''End Time''],
        [''vocal4.wav'', ''00:00:00'', ''00:00:01''],
        [''vocal5.wav'', ''00:00:01'', ''00:00:02''],
        [''vocal6.wav'', ''00:00:02'', ''00:00:02'']]" by code_simp
  have f: "fmt02 (360000000 div 3600000) @ '':'' @ fmt02 (360000000 div 60000 mod 60) @ '':''
              @ fmt02 (360000000 div 1000 mod 60) = ''100:00:00''" by code_simp
  note t1 = time_range_log_rows[OF h1 h2 h3 h4 h5, of 1]
  note t2 = time_range_log_rows[OF g1 h2 h3 g4 g5, of 4]
  have A: "rows_at (snd (split_wav_file ?w ''in.wav'' ''out'' 1 1)) ''out/time_ranges.csv'' =
       [[''Filename'', ''Start Time'', ''End Time''],
        [''vocal1.wav'', ''00:00:00'', ''00:00:01''],
        [''vocal2.wav'', ''00:00:01'', ''00:00:02''],
        [''vocal3.wav'', ''00:00:02'', ''00:00:02'']]"
    using t1[THEN conjunct1] unfolding n p r1 .
  have B: "rows_at (snd (split_wav_file ?v ''in.wav'' ''out'' 1 4)) ''out/time_ranges.csv'' =
       [[''Filename'', ''Start Time'', ''End Time''],
        [''vocal4.wav'', ''00:00:00'', ''00:00:01''],
        [''vocal5.wav'', ''00:00:01'', ''00:00:02''],
        [''vocal6.wav'', ''00:00:02'', ''00:00:02'']]"
    using t2[THEN conjunct1] unfolding n p r2 .
  have "format_time 360000000 = fmt02 (360000000 div 3600000) @ '':'' @ fmt02 (360000000 div 60000 mod 60) @ '':''
              @ fmt02 (360000000 div 1000 mod 60)"
    using t1 by blast
  then have C: "format_time 360000000 = ''100:00:00''" unfolding f .
  from A B C show ?thesis by blast
qed

section \<open>Properties of the triage sweeper\<close>

lemma path_exists_key: "path_exists fs p \<longleftrightarrow> p \<in> fst ` set fs"
  by (simp add: path_exists_def map_of_eq_None_iff)

lemma free_number_least:
  "\<exists>c. free_number fs final c0 = Some c \<and> c0 \<le> c
       \<and> \<not> path_exists fs (path_join final (vocal_name c))
       \<and> (\<forall>k. c0 \<le> k \<and> k < c \<longrightarrow> path_exists fs (path_join final (vocal_name k)))"
proof (induction "card {p \<in> fst ` set fs. \<exists>k \<ge> c0. p = path_join final (vocal_name k)}"
         arbitrary: c0 rule: less_induct)
  case less
  let ?S = "\<lambda>c. {p \<in> fst ` set fs. \<exists>k \<ge> c. p = path_join final (vocal_name k)}"
  show ?case
  proof (cases "path_exists fs (path_join final (vocal_name c0))")
    case False
    then show ?thesis by (subst free_number.simps) auto
  next
    case True
    have fin: "finite (?S c0)" by simp
    have sub: "?S (c0 + 1) \<subseteq> ?S c0"
    proof
      fix p assume "p \<in> ?S (c0 + 1)"
      then obtain k where k: "k \<ge> c0 + 1" "p = path_join final (vocal_name k)" "p \<in> fst ` set fs"
        by blast
      from k(1) have "k \<ge> c0" by simp
      with k(2,3) show "p \<in> ?S c0" by blast
    qed
    have inS: "path_join final (vocal_name c0) \<in> ?S c0"
      using True by (auto simp: path_exists_key)
    have notin: "path_join final (vocal_name c0) \<notin> ?S (c0 + 1)"
    proof
      assume "path_join final (vocal_name c0) \<in> ?S (c0 + 1)"
      then obtain k where "k \<ge> c0 + 1" "path_join final (vocal_name c0) = path_join final (vocal_name k)"
        by auto
      then show False using vocal_path_inj[of final c0 k] by simp
    qed
    have "?S (c0 + 1) \<subset> ?S c0" using sub inS notin by blast
    then have "card (?S (c0 + 1)) < card (?S c0)" using fin by (rule psubset_card_mono[rotated])
    from less[OF this] obtain c where c: "free_number fs final (c0 + 1) = Some c" "c0 + 1 \<le> c"
       "\<not> path_exists fs (path_join final (vocal_name c))"
       "\<forall>k. c0 + 1 \<le> k \<and> k < c \<longrightarrow> path_exists fs (path_join final (vocal_name k))"
      by blast
    have "free_number fs final c0 = Some c"
      using True c(1) by (subst free_number.simps) simp
    moreover have "\<forall>k. c0 \<le> k \<and> k < c \<longrightarrow> path_exists fs (path_join final (vocal_name k))"
    proof (intro allI impI)
      fix k assume k: "c0 \<le> k \<and> k < c"
      show "path_exists fs (path_join final (vocal_name k))"
      proof (cases "k = c0")
        case True
        then show ?thesis using \<open>path_exists fs (path_join final (vocal_name c0))\<close> by simp
      next
        case False
        then have "c0 + 1 \<le> k \<and> k < c" using k by simp
        then show ?thesis using c(4) by blast
      qed
    qed
    ultimately show ?thesis using c(2,3) by auto
  qed
qed

lemma get_wav_duration_Some:
  assumes "get_wav_duration fs p = (Some d, msgs)"
  shows "\<exists>frames rate. map_of fs p = Some (File (Wave frames rate)) \<and> rate \<noteq> 0
           \<and> d = rat_of_nat frames / rat_of_nat rate \<and> msgs = []"
  using assms
  by (auto simp: get_wav_duration_def split: option.splits node.splits wave_file.splits if_splits)

lemma get_wav_duration_None_iff:
  "fst (get_wav_duration fs p) = None \<longleftrightarrow>
     \<not> (\<exists>frames rate. map_of fs p = Some (File (Wave frames rate)) \<and> rate \<noteq> 0)"
  by (auto simp: get_wav_duration_def split: option.splits node.splits wave_file.splits if_splits)

lemma get_wav_duration_None_reported:
  "fst (get_wav_duration fs p) = None \<Longrightarrow> snd (get_wav_duration fs p) \<noteq> []"
  by (auto simp: get_wav_duration_def split: option.splits node.splits wave_file.splits if_splits)

lemma map_of_move:
  "map_of (AList.update dst n (AList.delete src fs)) q =
     (if q = dst then Some n else if q = src then None else map_of fs q)"
  by (simp add: update_conv' delete_conv')

lemma process_file_delete:
  assumes "get_wav_duration (store st) p = (Some d, msgs)" and "d \<noteq> t"
  shows "process_file t final st p =
         Some (st\<lparr>store := AList.delete p (store st), printed := printed st @ [Deleted p d]\<rparr>)"
proof -
  from get_wav_duration_Some[OF assms(1)] obtain frames rate where
    f: "map_of (store st) p = Some (File (Wave frames rate))" and m: "msgs = []" by blast
  have "d < t \<or> d > t" using assms(2) by auto
  then show ?thesis
    unfolding process_file_def assms(1) using f m by (simp add: os_remove_def)
qed

lemma process_file_move:
  assumes "get_wav_duration (store st) p = (Some t, msgs)"
      and "free_number (store st) final (vocal_counter st) = Some c"
      and "\<not> path_exists (store st) (path_join final (vocal_name c))"
  shows "\<exists>n. map_of (store st) p = Some n \<and> process_file t final st p =
         Some (st\<lparr>store := AList.update (path_join final (vocal_name c)) n (AList.delete p (store st)),
                  printed := printed st @ [Moved p (path_join final (vocal_name c)) t],
                  vocal_counter := c + 1\<rparr>)"
proof -
  from get_wav_duration_Some[OF assms(1)] obtain frames rate where
    f: "map_of (store st) p = Some (File (Wave frames rate))" and m: "msgs = []" by blast
  have nd: "\<not> isdir (store st) (path_join final (vocal_name c))"
    using assms(3) by (auto simp: isdir_def path_exists_def split: option.splits)
  have mv: "shutil_move (store st) p (path_join final (vocal_name c)) =
      Inr (AList.update (path_join final (vocal_name c)) (File (Wave frames rate)) (AList.delete p (store st)))"
    using f nd by (simp add: shutil_move_def)
  show ?thesis
    unfolding process_file_def assms(1,2) using f m mv by (simp add: Let_def)
qed

text \<open>
  C5 (as amended). For a file whose duration can be measured: when the duration equals
  the threshold, the file is moved (it is no longer at its old path, and its content is
  at the new one) to \<open>vocal<N>.wav\<close> in the destination directory, where \<open>N\<close> is the
  first number, counting up from the running counter of the sweep, for which no such
  entry exists there; the counter becomes \<open>N + 1\<close>. The number does not come from the
  scan of \<open>get_next_vocal_number\<close>. When the duration differs from the threshold, the file
  is deleted, every other path is left as it was, and the counter does not change.
\<close>

theorem triage_decision:
  assumes "get_wav_duration (store st) filepath = (Some duration, msgs)"
  shows "(duration = threshold \<longrightarrow>
           (\<exists>c st'. process_file threshold final st filepath = Some st'
              \<and> vocal_counter st \<le> c
              \<and> \<not> path_exists (store st) (path_join final (vocal_name c))
              \<and> (\<forall>k. vocal_counter st \<le> k \<and> k < c \<longrightarrow>
                     path_exists (store st) (path_join final (vocal_name k)))
              \<and> map_of (store st') (path_join final (vocal_name c)) = map_of (store st) filepath
              \<and> map_of (store st') filepath = None
              \<and> (\<forall>q. q \<noteq> filepath \<and> q \<noteq> path_join final (vocal_name c) \<longrightarrow>
                     map_of (store st') q = map_of (store st) q)
              \<and> vocal_counter st' = c + 1
              \<and> printed st' = printed st @ [Moved filepath (path_join final (vocal_name c)) duration]))
       \<and> (duration \<noteq> threshold \<longrightarrow>
           (\<exists>st'. process_file threshold final st filepath = Some st'
              \<and> map_of (store st') filepath = None
              \<and> (\<forall>q. q \<noteq> filepath \<longrightarrow> map_of (store st') q = map_of (store st) q)
              \<and> vocal_counter st' = vocal_counter st
              \<and> printed st' = printed st @ [Deleted filepath duration]))"
proof (intro conjI impI)
  assume eq: "duration = threshold"
  from free_number_least[of "store st" final "vocal_counter st"] obtain c where
    c: "free_number (store st) final (vocal_counter st) = Some c" "vocal_counter st \<le> c"
       "\<not> path_exists (store st) (path_join final (vocal_name c))"
       "\<forall>k. vocal_counter st \<le> k \<and> k < c \<longrightarrow> path_exists (store st) (path_join final (vocal_name k))"
    by blast
  from process_file_move[OF assms[unfolded eq] c(1,3)] obtain n where
    n: "map_of (store st) filepath = Some n"
    and p: "process_file threshold final st filepath =
         Some (st\<lparr>store := AList.update (path_join final (vocal_name c)) n (AList.delete filepath (store st)),
                  printed := printed st @ [Moved filepath (path_join final (vocal_name c)) threshold],
                  vocal_counter := c + 1\<rparr>)"
    by blast
  have ne: "filepath \<noteq> path_join final (vocal_name c)"
    using n c(3) by (auto simp: path_exists_def)
  show "\<exists>c st'. process_file threshold final st filepath = Some st'
              \<and> vocal_counter st \<le> c
              \<and> \<not> path_exists (store st) (path_join final (vocal_name c))
              \<and> (\<forall>k. vocal_counter st \<le> k \<and> k < c \<longrightarrow>
                     path_exists (store st) (path_join final (vocal_name k)))
              \<and> map_of (store st') (path_join final (vocal_name c)) = map_of (store st) filepath
              \<and> map_of (store st') filepath = None
              \<and> (\<forall>q. q \<noteq> filepath \<and> q \<noteq> path_join final (vocal_name c) \<longrightarrow>
                     map_of (store st') q = map_of (store st) q)
              \<and> vocal_counter st' = c + 1
              \<and> printed st' = printed st @ [Moved filepath (path_join final (vocal_name c)) duration]"
    apply (rule exI[of _ c])
    apply (rule exI[of _ "st\<lparr>store := AList.update (path_join final (vocal_name c)) n (AList.delete filepath (store st)),
                  printed := printed st @ [Moved filepath (path_join final (vocal_name c)) threshold],
                  vocal_counter := c + 1\<rparr>"])
    using p c(2,3,4) n ne eq by (simp add: map_of_move)
next
  assume ne: "duration \<noteq> threshold"
  show "\<exists>st'. process_file threshold final st filepath = Some st'
              \<and> map_of (store st') filepath = None
              \<and> (\<forall>q. q \<noteq> filepath \<longrightarrow> map_of (store st') q = map_of (store st) q)
              \<and> vocal_counter st' = vocal_counter st
              \<and> printed st' = printed st @ [Deleted filepath duration]"
    apply (rule exI[of _ "st\<lparr>store := AList.delete filepath (store st),
                             printed := printed st @ [Deleted filepath duration]\<rparr>"])
    using process_file_delete[OF assms ne] by (simp add: delete_conv')
qed

theorem triage_decision_witness:
  "get_wav_duration [(''final'', Dir), (''final/vocal1.wav'', File (Wave 90 3)),
                     (''src/a.wav'', File (Wave 30 1)), (''src/b.wav'', File (Wave 29 1))] ''src/a.wav''
     = (Some 30, [])
   \<and> (\<exists>st'. process_file 30 ''final''
          \<lparr>store = [(''final'', Dir), (''final/vocal1.wav'', File (Wave 90 3)),
                     (''src/a.wav'', File (Wave 30 1)), (''src/b.wav'', File (Wave 29 1))],
           printed = [], vocal_counter = 1\<rparr> ''src/a.wav'' = Some st'
        \<and> map_of (store st') ''src/a.wav'' = None
        \<and> map_of (store st') ''final/vocal2.wav'' = Some (File (Wave 30 1))
        \<and> vocal_counter st' = 3)
   \<and> (\<exists>st'. process_file 30 ''final''
          \<lparr>store = [(''final'', Dir), (''final/vocal1.wav'', File (Wave 90 3)),
                     (''src/a.wav'', File (Wave 30 1)), (''src/b.wav'', File (Wave 29 1))],
           printed = [], vocal_counter = 1\<rparr> ''src/b.wav'' = Some st'
        \<and> map_of (store st') ''src/b.wav'' = None
        \<and> map_of (store st') ''src/a.wav'' = Some (File (Wave 30 1))
        \<and> vocal_counter st' = 1)"
proof -
  let ?fs = "[(''final'', Dir), (''final/vocal1.wav'', File (Wave 90 3)),
              (''src/a.wav'', File (Wave 30 1)), (''src/b.wav'', File (Wave 29 1))]"
  let ?st = "\<lparr>store = ?fs, printed = [], vocal_counter = 1\<rparr>"
  have ha: "get_wav_duration (store ?st) ''src/a.wav'' = (Some 30, [])" by code_simp
  have hb: "get_wav_duration (store ?st) ''src/b.wav'' = (Some 29, [])" by code_simp
  have e1: "path_exists (store ?st) (path_join ''final'' (vocal_name 1))" by code_simp
  have e2: "\<not> path_exists (store ?st) (path_join ''final'' (vocal_name 2))" by code_simp
  have p2: "path_join ''final'' (vocal_name 2) = ''final/vocal2.wav''" by code_simp
  have sa: "map_of (store ?st) ''src/a.wav'' = Some (File (Wave 30 1))" by simp
  have ne: "''src/a.wav'' \<noteq> ''src/b.wav''" by simp
  from triage_decision[OF ha, of 30 "''final''"] obtain c st' where
    m: "process_file 30 ''final'' ?st ''src/a.wav'' = Some st'" "vocal_counter ?st \<le> c"
       "\<not> path_exists (store ?st) (path_join ''final'' (vocal_name c))"
       "\<forall>k. vocal_counter ?st \<le> k \<and> k < c \<longrightarrow>
             path_exists (store ?st) (path_join ''final'' (vocal_name k))"
       "map_of (store st') (path_join ''final'' (vocal_name c)) = map_of (store ?st) ''src/a.wav''"
       "map_of (store st') ''src/a.wav'' = None" "vocal_counter st' = c + 1"
    by auto
  have "c \<noteq> 1" using m(3) e1 by auto
  moreover have "\<not> 2 < c" using m(4) e2 by auto
  moreover have "1 \<le> c" using m(2) by simp
  ultimately have c: "c = 2" by linarith
  have A: "\<exists>st'. process_file 30 ''final'' ?st ''src/a.wav'' = Some st'
        \<and> map_of (store st') ''src/a.wav'' = None
        \<and> map_of (store st') ''final/vocal2.wav'' = Some (File (Wave 30 1))
        \<and> vocal_counter st' = 3"
    using m(1,5,6,7) sa unfolding c p2 by auto
  have "(29::rat) \<noteq> 30" by simp
  with triage_decision[OF hb, of 30 "''final''"] obtain st'' where
    d: "process_file 30 ''final'' ?st ''src/b.wav'' = Some st''"
       "map_of (store st'') ''src/b.wav'' = None"
       "\<forall>q. q \<noteq> ''src/b.wav'' \<longrightarrow> map_of (store st'') q = map_of (store ?st) q"
       "vocal_counter st'' = vocal_counter ?st"
    by auto
  have B: "\<exists>st'. process_file 30 ''final'' ?st ''src/b.wav'' = Some st'
        \<and> map_of (store st') ''src/b.wav'' = None
        \<and> map_of (store st') ''src/a.wav'' = Some (File (Wave 30 1))
        \<and> vocal_counter st' = 1"
    using d(1,2,4) d(3)[rule_format, OF ne] sa by auto
  from ha A B show ?thesis by simp
qed

text \<open>
  With only \<open>vocal3.wav\<close> in the destination directory, a sweep moves a file of the
  threshold duration to \<open>vocal1.wav\<close>, while the scan of the directory gives 4.
\<close>

theorem sweeper_numbering_counterexample:
  "map_option store (process_file 30 ''final''
      \<lparr>store = [(''final'', Dir), (''final/vocal3.wav'', File (Wave 90 3)),
                 (''src/a.wav'', File (Wave 30 1))],
       printed = [], vocal_counter = 1\<rparr> ''src/a.wav'')
     = Some [(''final'', Dir), (''final/vocal3.wav'', File (Wave 90 3)),
             (''final/vocal1.wav'', File (Wave 30 1))]
   \<and> fst (get_next_vocal_number [(''final'', Dir), (''final/vocal3.wav'', File (Wave 90 3)),
                 (''src/a.wav'', File (Wave 30 1))] ''final'') = Inr 4"
  by code_simp

text \<open>
  C6. A file whose duration cannot be measured, that is, any path that does not hold a
  WAV file with a frame rate other than 0, is reported and skipped: the store and the
  counter are as before, only the report grows, and the loop goes on with the files
  that remain.
\<close>

theorem unreadable_file_skipped:
  assumes "fst (get_wav_duration (store st) (path_join dirpath file)) = None"
      and "endswith (lower file) ''.wav''"
  shows "process_file threshold final st (path_join dirpath file) =
           Some (st\<lparr>printed := printed st @ snd (get_wav_duration (store st) (path_join dirpath file))
                                  @ [Skipping (path_join dirpath file)]\<rparr>)
       \<and> snd (get_wav_duration (store st) (path_join dirpath file)) \<noteq> []
       \<and> for_files threshold final dirpath (file # rest) st =
           for_files threshold final dirpath rest
             (st\<lparr>printed := printed st @ snd (get_wav_duration (store st) (path_join dirpath file))
                                  @ [Skipping (path_join dirpath file)]\<rparr>)
       \<and> store (st\<lparr>printed := printed st @ snd (get_wav_duration (store st) (path_join dirpath file))
                                  @ [Skipping (path_join dirpath file)]\<rparr>) = store st
       \<and> vocal_counter (st\<lparr>printed := printed st @ snd (get_wav_duration (store st) (path_join dirpath file))
                                  @ [Skipping (path_join dirpath file)]\<rparr>) = vocal_counter st
       \<and> (fst (get_wav_duration fs p) = None \<longleftrightarrow>
            \<not> (\<exists>frames rate. map_of fs p = Some (File (Wave frames rate)) \<and> rate \<noteq> 0))"
proof -
  obtain msgs where g: "get_wav_duration (store st) (path_join dirpath file) = (None, msgs)"
    using assms(1) by (cases "get_wav_duration (store st) (path_join dirpath file)") auto
  have 1: "process_file threshold final st (path_join dirpath file) =
           Some (st\<lparr>printed := printed st @ msgs @ [Skipping (path_join dirpath file)]\<rparr>)"
    unfolding process_file_def g by simp
  have 2: "msgs \<noteq> []" using get_wav_duration_None_reported[OF assms(1)] g by simp
  have 3: "for_files threshold final dirpath (file # rest) st =
           for_files threshold final dirpath rest
             (st\<lparr>printed := printed st @ msgs @ [Skipping (path_join dirpath file)]\<rparr>)"
    using assms(2) 1 by simp
  show ?thesis using 1 2 3 get_wav_duration_None_iff[of fs p] unfolding g by simp
qed

theorem unreadable_file_skipped_witness:
  "fst (get_wav_duration [(''src/c.wav'', File NotWave), (''src/d.wav'', File (Wave 29 1))] (path_join ''src'' ''c.wav''))
     = None
   \<and> endswith (lower ''c.wav'') ''.wav''
   \<and> for_files 30 ''final'' ''src'' [''c.wav'', ''d.wav'']
        \<lparr>store = [(''src/c.wav'', File NotWave), (''src/d.wav'', File (Wave 29 1))],
         printed = [], vocal_counter = 1\<rparr>
     = Some \<lparr>store = [(''src/c.wav'', File NotWave)],
              printed = [Error_reading ''src/c.wav'', Skipping ''src/c.wav'', Deleted ''src/d.wav'' 29],
              vocal_counter = 1\<rparr>"
proof -
  let ?st = "\<lparr>store = [(''src/c.wav'', File NotWave), (''src/d.wav'', File (Wave 29 1))],
         printed = [], vocal_counter = 1\<rparr>"
  have h1: "fst (get_wav_duration (store ?st) (path_join ''src'' ''c.wav'')) = None" by code_simp
  have h2: "endswith (lower ''c.wav'') ''.wav''" by code_simp
  have r: "for_files 30 ''final'' ''src'' [''d.wav'']
             (?st\<lparr>printed := printed ?st @ snd (get_wav_duration (store ?st) (path_join ''src'' ''c.wav''))
                                  @ [Skipping (path_join ''src'' ''c.wav'')]\<rparr>)
     = Some \<lparr>store = [(''src/c.wav'', File NotWave)],
              printed = [Error_reading ''src/c.wav'', Skipping ''src/c.wav'', Deleted ''src/d.wav'' 29],
              vocal_counter = 1\<rparr>" by code_simp
  have "for_files 30 ''final'' ''src'' [''c.wav'', ''d.wav''] ?st =
        for_files 30 ''final'' ''src'' [''d.wav'']
             (?st\<lparr>printed := printed ?st @ snd (get_wav_duration (store ?st) (path_join ''src'' ''c.wav''))
                                  @ [Skipping (path_join ''src'' ''c.wav'')]\<rparr>)"
    using unreadable_file_skipped[OF h1 h2, of 30 "''final''" "[''d.wav'']"] by blast
  then have "for_files 30 ''final'' ''src'' [''c.wav'', ''d.wav''] ?st
     = Some \<lparr>store = [(''src/c.wav'', File NotWave)],
              printed = [Error_reading ''src/c.wav'', Skipping ''src/c.wav'', Deleted ''src/d.wav'' 29],
              vocal_counter = 1\<rparr>"
    unfolding r .
  with h1 h2 show ?thesis by simp
qed

text \<open>
  C7. When a file of the threshold duration is moved, the loop on \<open>vocal_counter\<close> ends:
  every candidate name it passed over exists in the destination directory, the name it
  stops at does not, the file is moved there, and every other path that existed keeps
  its content, so nothing is overwritten. With \<open>vocal1.wav\<close> in the destination, the
  file becomes \<open>vocal2.wav\<close>.
\<close>

theorem move_never_overwrites:
  assumes "get_wav_duration (store st) filepath = (Some threshold, msgs)"
  shows "\<exists>c st'. process_file threshold final st filepath = Some st'
           \<and> free_number (store st) final (vocal_counter st) = Some c
           \<and> vocal_counter st \<le> c
           \<and> (\<forall>k. vocal_counter st \<le> k \<and> k < c \<longrightarrow>
                  path_exists (store st) (path_join final (vocal_name k)))
           \<and> \<not> path_exists (store st) (path_join final (vocal_name c))
           \<and> map_of (store st') (path_join final (vocal_name c)) = map_of (store st) filepath
           \<and> (\<forall>q. q \<noteq> filepath \<and> path_exists (store st) q \<longrightarrow>
                  map_of (store st') q = map_of (store st) q)"
proof -
  from free_number_least[of "store st" final "vocal_counter st"] obtain c where
    c: "free_number (store st) final (vocal_counter st) = Some c" "vocal_counter st \<le> c"
       "\<not> path_exists (store st) (path_join final (vocal_name c))"
       "\<forall>k. vocal_counter st \<le> k \<and> k < c \<longrightarrow> path_exists (store st) (path_join final (vocal_name k))"
    by blast
  from process_file_move[OF assms c(1,3)] obtain n where
    n: "map_of (store st) filepath = Some n"
    and p: "process_file threshold final st filepath =
         Some (st\<lparr>store := AList.update (path_join final (vocal_name c)) n (AList.delete filepath (store st)),
                  printed := printed st @ [Moved filepath (path_join final (vocal_name c)) threshold],
                  vocal_counter := c + 1\<rparr>)"
    by blast
  show ?thesis
    apply (rule exI[of _ c])
    apply (rule exI[of _ "st\<lparr>store := AList.update (path_join final (vocal_name c)) n (AList.delete filepath (store st)),
                  printed := printed st @ [Moved filepath (path_join final (vocal_name c)) threshold],
                  vocal_counter := c + 1\<rparr>"])
    using p c n by (auto simp: map_of_move)
qed

theorem move_never_overwrites_witness:
  "get_wav_duration [(''final'', Dir), (''final/vocal1.wav'', File (Wave 90 3)),
                     (''src/a.wav'', File (Wave 60 2))] ''src/a.wav'' = (Some 30, [])
   \<and> (\<exists>st'. process_file 30 ''final''
          \<lparr>store = [(''final'', Dir), (''final/vocal1.wav'', File (Wave 90 3)),
                     (''src/a.wav'', File (Wave 60 2))],
           printed = [], vocal_counter = 1\<rparr> ''src/a.wav'' = Some st'
        \<and> map_of (store st') ''final/vocal2.wav'' = Some (File (Wave 60 2))
        \<and> map_of (store st') ''final/vocal1.wav'' = Some (File (Wave 90 3)))"
proof -
  let ?fs = "[(''final'', Dir), (''final/vocal1.wav'', File (Wave 90 3)),
              (''src/a.wav'', File (Wave 60 2))]"
  let ?st = "\<lparr>store = ?fs, printed = [], vocal_counter = 1\<rparr>"
  have ha: "get_wav_duration (store ?st) ''src/a.wav'' = (Some 30, [])" by code_simp
  have f: "free_number (store ?st) ''final'' (vocal_counter ?st) = Some 2" by code_simp
  have p2: "path_join ''final'' (vocal_name 2) = ''final/vocal2.wav''" by code_simp
  have sa: "map_of (store ?st) ''src/a.wav'' = Some (File (Wave 60 2))" by simp
  have v1: "''final/vocal1.wav'' \<noteq> ''src/a.wav'' \<and> path_exists (store ?st) ''final/vocal1.wav''"
    by (simp add: path_exists_def)
  have s1: "map_of (store ?st) ''final/vocal1.wav'' = Some (File (Wave 90 3))" by simp
  from move_never_overwrites[OF ha, of "''final''"] obtain c st' where
    m: "process_file 30 ''final'' ?st ''src/a.wav'' = Some st'"
       "free_number (store ?st) ''final'' (vocal_counter ?st) = Some c"
       "map_of (store st') (path_join ''final'' (vocal_name c)) = map_of (store ?st) ''src/a.wav''"
       "\<forall>q. q \<noteq> ''src/a.wav'' \<and> path_exists (store ?st) q \<longrightarrow>
                  map_of (store st') q = map_of (store ?st) q"
    by blast
  have c: "c = 2" using m(2) f by simp
  have "map_of (store st') ''final/vocal2.wav'' = Some (File (Wave 60 2))"
    using m(3) sa unfolding c p2 by simp
  moreover have "map_of (store st') ''final/vocal1.wav'' = Some (File (Wave 90 3))"
    using m(4)[rule_format, OF v1] s1 by simp
  ultimately show ?thesis using ha m(1) by auto
qed

section \<open>Properties of the pipeline driver\<close>

lemma map_of_filter_key:
  "map_of (filter (\<lambda>(k, v). P k) fs) q = (if P q then map_of fs q else None)"
  by (induction fs) auto

lemma stdout_clean_up: "\<exists>ls. stdout (clean_up w t) = stdout w @ ls"
  by (auto simp: clean_up_def say_def split: sum.splits)

lemma line_kept_by_clean_up: "l \<in> set (stdout w) \<Longrightarrow> l \<in> set (stdout (clean_up w t))"
  using stdout_clean_up[of w t] by auto

lemma not_isdir_clean_up: "\<not> isdir (files (clean_up w t)) t"
proof (cases "isdir (files w) t")
  case True
  then have "path_exists (files w) t" by (rule isdir_exists)
  then show ?thesis using True
    by (simp add: clean_up_def rmtree_def say_def isdir_def map_of_filter_key)
next
  case False
  then show ?thesis by (simp add: clean_up_def rmtree_def say_def)
qed

lemma under_clean_up:
  assumes "isdir (files w) t" "under t q"
  shows "\<not> path_exists (files (clean_up w t)) q"
  using assms isdir_exists[OF assms(1)]
  by (simp add: clean_up_def rmtree_def say_def path_exists_def map_of_filter_key)

lemma driver_caught:
  assumes "process_youtube_video_try ydl sep w url d n = (Inl e, w1)"
  shows "fst (process_youtube_video ydl sep w url d n) = n"
    and "error_line url e \<in> set (stdout (snd (process_youtube_video ydl sep w url d n)))"
  unfolding process_youtube_video_def assms
  by (simp_all add: line_kept_by_clean_up say_def)

lemma driver_caught_vocal_only:
  assumes "process_youtube_video_try_vocal_only ydl sep w url d n = (Inl e, w1)"
  shows "fst (process_youtube_video_vocal_only ydl sep w url d n) = n"
    and "error_line url e \<in> set (stdout (snd (process_youtube_video_vocal_only ydl sep w url d n)))"
  unfolding process_youtube_video_vocal_only_def assms
  by (simp_all add: line_kept_by_clean_up say_def)

lemma driver_cleanup:
  "\<not> isdir (files (snd (process_youtube_video ydl sep w url d n))) ''temp_processing''"
  "isdir (files (snd (process_youtube_video_try ydl sep w url d n))) ''temp_processing'' \<Longrightarrow>
   under ''temp_processing'' q \<Longrightarrow>
   \<not> path_exists (files (snd (process_youtube_video ydl sep w url d n))) q"
proof -
  obtain r w1 where t: "process_youtube_video_try ydl sep w url d n = (r, w1)"
    by (cases "process_youtube_video_try ydl sep w url d n")
  show "\<not> isdir (files (snd (process_youtube_video ydl sep w url d n))) ''temp_processing''"
    unfolding process_youtube_video_def t by (cases r) (simp_all add: not_isdir_clean_up)
  assume "isdir (files (snd (process_youtube_video_try ydl sep w url d n))) ''temp_processing''"
    and u: "under ''temp_processing'' q"
  then have "isdir (files w1) ''temp_processing''" using t by simp
  then have "isdir (files (say l w1)) ''temp_processing''" for l by (simp add: say_def)
  then show "\<not> path_exists (files (snd (process_youtube_video ydl sep w url d n))) q"
    unfolding process_youtube_video_def t
    using u \<open>isdir (files w1) ''temp_processing''\<close> by (cases r) (simp_all add: under_clean_up)
qed

lemma driver_cleanup_vocal_only:
  "\<not> isdir (files (snd (process_youtube_video_vocal_only ydl sep w url d n))) ''temp_processing''"
  "isdir (files (snd (process_youtube_video_try_vocal_only ydl sep w url d n))) ''temp_processing'' \<Longrightarrow>
   under ''temp_processing'' q \<Longrightarrow>
   \<not> path_exists (files (snd (process_youtube_video_vocal_only ydl sep w url d n))) q"
proof -
  obtain r w1 where t: "process_youtube_video_try_vocal_only ydl sep w url d n = (r, w1)"
    by (cases "process_youtube_video_try_vocal_only ydl sep w url d n")
  show "\<not> isdir (files (snd (process_youtube_video_vocal_only ydl sep w url d n))) ''temp_processing''"
    unfolding process_youtube_video_vocal_only_def t by (cases r) (simp_all add: not_isdir_clean_up)
  assume "isdir (files (snd (process_youtube_video_try_vocal_only ydl sep w url d n))) ''temp_processing''"
    and u: "under ''temp_processing'' q"
  then have "isdir (files w1) ''temp_processing''" using t by simp
  then have "isdir (files (say l w1)) ''temp_processing''" for l by (simp add: say_def)
  then show "\<not> path_exists (files (snd (process_youtube_video_vocal_only ydl sep w url d n))) q"
    unfolding process_youtube_video_vocal_only_def t
    using u \<open>isdir (files w1) ''temp_processing''\<close> by (cases r) (simp_all add: under_clean_up)
qed

lemma try_makedirs_fails:
  assumes "makedirs_exist_ok (files w) ''temp_processing'' = Inl e"
  shows "process_youtube_video_try ydl sep w url d n = (Inl e, w)"
    and "process_youtube_video_try_vocal_only ydl sep w url d n = (Inl e, w)"
  unfolding process_youtube_video_try_def process_youtube_video_try_vocal_only_def Let_def
  using assms by simp_all

lemma try_download_fails:
  assumes "makedirs_exist_ok (files w) ''temp_processing'' = Inr fs1"
      and "download_audio ydl (world_started w fs1 url) url (path_join ''temp_processing'' ''audio'') = (Inl e, w2)"
  shows "process_youtube_video_try ydl sep w url d n = (Inl e, w2)"
    and "process_youtube_video_try_vocal_only ydl sep w url d n = (Inl e, w2)"
  unfolding process_youtube_video_try_def process_youtube_video_try_vocal_only_def Let_def
  using assms by simp_all

lemma try_extract_fails:
  assumes "makedirs_exist_ok (files w) ''temp_processing'' = Inr fs1"
      and "download_audio ydl (world_started w fs1 url) url (path_join ''temp_processing'' ''audio'') = (Inr mp3, w2)"
      and "extract_vocals sep (world_downloaded w2) mp3 (path_join ''temp_processing'' ''vocals'') = (Inl e, w4)"
  shows "process_youtube_video_try ydl sep w url d n = (Inl e, w4)"
  unfolding process_youtube_video_try_def Let_def using assms by simp

lemma try_extract_fails_vocal_only:
  assumes "makedirs_exist_ok (files w) ''temp_processing'' = Inr fs1"
      and "download_audio ydl (world_started w fs1 url) url (path_join ''temp_processing'' ''audio'') = (Inr mp3, w2)"
      and "extract_vocals_vocal_only sep (world_downloaded w2) mp3 (path_join ''temp_processing'' ''vocals'') = (Inl e, w4)"
  shows "process_youtube_video_try_vocal_only ydl sep w url d n = (Inl e, w4)"
  unfolding process_youtube_video_try_vocal_only_def Let_def using assms by simp

lemma try_split_fails:
  assumes "makedirs_exist_ok (files w) ''temp_processing'' = Inr fs1"
      and "download_audio ydl (world_started w fs1 url) url (path_join ''temp_processing'' ''audio'') = (Inr mp3, w2)"
      and "extract_vocals sep (world_downloaded w2) mp3 (path_join ''temp_processing'' ''vocals'') = (Inr vp, w4)"
      and "split_wav_file (world_extracted ''5'' w4 vp) vp d 5 n = (Inl e, w6)"
  shows "process_youtube_video_try ydl sep w url d n = (Inl e, w6)"
  unfolding process_youtube_video_try_def Let_def using assms by simp

lemma try_split_fails_vocal_only:
  assumes "makedirs_exist_ok (files w) ''temp_processing'' = Inr fs1"
      and "download_audio ydl (world_started w fs1 url) url (path_join ''temp_processing'' ''audio'') = (Inr mp3, w2)"
      and "extract_vocals_vocal_only sep (world_downloaded w2) mp3 (path_join ''temp_processing'' ''vocals'') = (Inr vp, w4)"
      and "split_wav_file_vocal_only (world_extracted ''30'' w4 vp) vp d 30 n = (Inl e, w6)"
  shows "process_youtube_video_try_vocal_only ydl sep w url d n = (Inl e, w6)"
  unfolding process_youtube_video_try_vocal_only_def Let_def using assms by simp

lemma driver_returns:
  "process_youtube_video_try ydl sep w url d n = (Inr n', w1) \<Longrightarrow>
   fst (process_youtube_video ydl sep w url d n) = n'"
  "process_youtube_video_try_vocal_only ydl sep w url d n = (Inr n', w1) \<Longrightarrow>
   fst (process_youtube_video_vocal_only ydl sep w url d n) = n'"
  by (simp_all add: process_youtube_video_def process_youtube_video_vocal_only_def)

text \<open>
  C8. In a run of \<open>process_youtube_video\<close> (of either script), whatever the download and
  the separation do: if making the scratch directory, the Fetcher, the Separator or the
  Segmenter raises, and in general if the \<open>try\<close> suite raises, the driver returns the
  counter it was given and has printed the line that names the URL and the message of
  the error; if the suite ends, the driver returns its counter. In every case the
  clean-up has run when the driver returns: the scratch directory is not a directory
  any more, and nothing below it is left.
\<close>

theorem driver_failure_and_cleanup:
  "(\<forall>e. makedirs_exist_ok (files w) ''temp_processing'' = Inl e \<longrightarrow>
            fst (process_youtube_video ydl sep w url d n) = n
            \<and> error_line url e \<in> set (stdout (snd (process_youtube_video ydl sep w url d n))))
     \<and> (\<forall>fs1 e w2.
            makedirs_exist_ok (files w) ''temp_processing'' = Inr fs1
            \<and> download_audio ydl (world_started w fs1 url) url (path_join ''temp_processing'' ''audio'') = (Inl e, w2) \<longrightarrow>
            fst (process_youtube_video ydl sep w url d n) = n
            \<and> error_line url e \<in> set (stdout (snd (process_youtube_video ydl sep w url d n))))
     \<and> (\<forall>fs1 mp3 w2 e w4.
            makedirs_exist_ok (files w) ''temp_processing'' = Inr fs1
            \<and> download_audio ydl (world_started w fs1 url) url (path_join ''temp_processing'' ''audio'') = (Inr mp3, w2)
            \<and> extract_vocals sep (world_downloaded w2) mp3 (path_join ''temp_processing'' ''vocals'') = (Inl e, w4) \<longrightarrow>
            fst (process_youtube_video ydl sep w url d n) = n
            \<and> error_line url e \<in> set (stdout (snd (process_youtube_video ydl sep w url d n))))
     \<and> (\<forall>fs1 mp3 w2 vp w4 e w6.
            makedirs_exist_ok (files w) ''temp_processing'' = Inr fs1
            \<and> download_audio ydl (world_started w fs1 url) url (path_join ''temp_processing'' ''audio'') = (Inr mp3, w2)
            \<and> extract_vocals sep (world_downloaded w2) mp3 (path_join ''temp_processing'' ''vocals'') = (Inr vp, w4)
            \<and> split_wav_file (world_extracted ''5'' w4 vp) vp d 5 n = (Inl e, w6) \<longrightarrow>
            fst (process_youtube_video ydl sep w url d n) = n
            \<and> error_line url e \<in> set (stdout (snd (process_youtube_video ydl sep w url d n))))
     \<and> (\<forall>e w1. process_youtube_video_try ydl sep w url d n = (Inl e, w1) \<longrightarrow>
            fst (process_youtube_video ydl sep w url d n) = n
            \<and> error_line url e \<in> set (stdout (snd (process_youtube_video ydl sep w url d n))))
     \<and> (\<forall>n' w1. process_youtube_video_try ydl sep w url d n = (Inr n', w1) \<longrightarrow>
            fst (process_youtube_video ydl sep w url d n) = n')
     \<and> \<not> isdir (files (snd (process_youtube_video ydl sep w url d n))) ''temp_processing''
     \<and> (\<forall>q. isdir (files (snd (process_youtube_video_try ydl sep w url d n))) ''temp_processing''
            \<and> under ''temp_processing'' q \<longrightarrow>
            \<not> path_exists (files (snd (process_youtube_video ydl sep w url d n))) q)
     \<and> (\<forall>e. makedirs_exist_ok (files w) ''temp_processing'' = Inl e \<longrightarrow>
            fst (process_youtube_video_vocal_only ydl sep w url d n) = n
            \<and> error_line url e \<in> set (stdout (snd (process_youtube_video_vocal_only ydl sep w url d n))))
     \<and> (\<forall>fs1 e w2.
            makedirs_exist_ok (files w) ''temp_processing'' = Inr fs1
            \<and> download_audio ydl (world_started w fs1 url) url (path_join ''temp_processing'' ''audio'') = (Inl e, w2) \<longrightarrow>
            fst (process_youtube_video_vocal_only ydl sep w url d n) = n
            \<and> error_line url e \<in> set (stdout (snd (process_youtube_video_vocal_only ydl sep w url d n))))
     \<and> (\<forall>fs1 mp3 w2 e w4.
            makedirs_exist_ok (files w) ''temp_processing'' = Inr fs1
            \<and> download_audio ydl (world_started w fs1 url) url (path_join ''temp_processing'' ''audio'') = (Inr mp3, w2)
            \<and> extract_vocals_vocal_only sep (world_downloaded w2) mp3 (path_join ''temp_processing'' ''vocals'') = (Inl e, w4) \<longrightarrow>
            fst (process_youtube_video_vocal_only ydl sep w url d n) = n
            \<and> error_line url e \<in> set (stdout (snd (process_youtube_video_vocal_only ydl sep w url d n))))
     \<and> (\<forall>fs1 mp3 w2 vp w4 e w6.
            makedirs_exist_ok (files w) ''temp_processing'' = Inr fs1
            \<and> download_audio ydl (world_started w fs1 url) url (path_join ''temp_processing'' ''audio'') = (Inr mp3, w2)
            \<and> extract_vocals_vocal_only sep (world_downloaded w2) mp3 (path_join ''temp_processing'' ''vocals'') = (Inr vp, w4)
            \<and> split_wav_file_vocal_only (world_extracted ''30'' w4 vp) vp d 30 n = (Inl e, w6) \<longrightarrow>
            fst (process_youtube_video_vocal_only ydl sep w url d n) = n
            \<and> error_line url e \<in> set (stdout (snd (process_youtube_video_vocal_only ydl sep w url d n))))
     \<and> (\<forall>e w1. process_youtube_video_try_vocal_only ydl sep w url d n = (Inl e, w1) \<longrightarrow>
            fst (process_youtube_video_vocal_only ydl sep w url d n) = n
            \<and> error_line url e \<in> set (stdout (snd (process_youtube_video_vocal_only ydl sep w url d n))))
     \<and> (\<forall>n' w1. process_youtube_video_try_vocal_only ydl sep w url d n = (Inr n', w1) \<longrightarrow>
            fst (process_youtube_video_vocal_only ydl sep w url d n) = n')
     \<and> \<not> isdir (files (snd (process_youtube_video_vocal_only ydl sep w url d n))) ''temp_processing''
     \<and> (\<forall>q. isdir (files (snd (process_youtube_video_try_vocal_only ydl sep w url d n))) ''temp_processing''
            \<and> under ''temp_processing'' q \<longrightarrow>
            \<not> path_exists (files (snd (process_youtube_video_vocal_only ydl sep w url d n))) q)"
proof -
  have p1:
    "(\<forall>e. makedirs_exist_ok (files w) ''temp_processing'' = Inl e \<longrightarrow>
       fst (process_youtube_video ydl sep w url d n) = n
       \<and> error_line url e \<in> set (stdout (snd (process_youtube_video ydl sep w url d n))))"
    by ((intro allI impI conjI)?; (elim conjE)?; (rule driver_caught[OF try_makedirs_fails(1)]; assumption?))
  have p2:
    "(\<forall>fs1 e w2.
       makedirs_exist_ok (files w) ''temp_processing'' = Inr fs1
       \<and> download_audio ydl (world_started w fs1 url) url (path_join ''temp_processing'' ''audio'') = (Inl e, w2) \<longrightarrow>
       fst (process_youtube_video ydl sep w url d n) = n
       \<and> error_line url e \<in> set (stdout (snd (process_youtube_video ydl sep w url d n))))"
    by ((intro allI impI conjI)?; (elim conjE)?; (rule driver_caught[OF try_download_fails(1)]; assumption?))
  have p3:
    "(\<forall>fs1 mp3 w2 e w4.
       makedirs_exist_ok (files w) ''temp_processing'' = Inr fs1
       \<and> download_audio ydl (world_started w fs1 url) url (path_join ''temp_processing'' ''audio'') = (Inr mp3, w2)
       \<and> extract_vocals sep (world_downloaded w2) mp3 (path_join ''temp_processing'' ''vocals'') = (Inl e, w4) \<longrightarrow>
       fst (process_youtube_video ydl sep w url d n) = n
       \<and> error_line url e \<in> set (stdout (snd (process_youtube_video ydl sep w url d n))))"
    by ((intro allI impI conjI)?; (elim conjE)?; (rule driver_caught[OF try_extract_fails]; assumption?))
  have p4:
    "(\<forall>fs1 mp3 w2 vp w4 e w6.
       makedirs_exist_ok (files w) ''temp_processing'' = Inr fs1
       \<and> download_audio ydl (world_started w fs1 url) url (path_join ''temp_processing'' ''audio'') = (Inr mp3, w2)
       \<and> extract_vocals sep (world_downloaded w2) mp3 (path_join ''temp_processing'' ''vocals'') = (Inr vp, w4)
       \<and> split_wav_file (world_extracted ''5'' w4 vp) vp d 5 n = (Inl e, w6) \<longrightarrow>
       fst (process_youtube_video ydl sep w url d n) = n
       \<and> error_line url e \<in> set (stdout (snd (process_youtube_video ydl sep w url d n))))"
    by ((intro allI impI conjI)?; (elim conjE)?; (rule driver_caught[OF try_split_fails]; assumption?))
  have p5:
    "(\<forall>e w1. process_youtube_video_try ydl sep w url d n = (Inl e, w1) \<longrightarrow>
       fst (process_youtube_video ydl sep w url d n) = n
       \<and> error_line url e \<in> set (stdout (snd (process_youtube_video ydl sep w url d n))))"
    by ((intro allI impI conjI)?; (elim conjE)?; (rule driver_caught; assumption?))
  have p6:
    "(\<forall>n' w1. process_youtube_video_try ydl sep w url d n = (Inr n', w1) \<longrightarrow>
       fst (process_youtube_video ydl sep w url d n) = n')"
    by ((intro allI impI conjI)?; (elim conjE)?; (rule driver_returns(1); assumption?))
  have p7:
    "\<not> isdir (files (snd (process_youtube_video ydl sep w url d n))) ''temp_processing''"
    by ((intro allI impI conjI)?; (elim conjE)?; (rule driver_cleanup(1); assumption?))
  have p8:
    "(\<forall>q. isdir (files (snd (process_youtube_video_try ydl sep w url d n))) ''temp_processing''
       \<and> under ''temp_processing'' q \<longrightarrow>
       \<not> path_exists (files (snd (process_youtube_video ydl sep w url d n))) q)"
    by ((intro allI impI conjI)?; (elim conjE)?; (rule driver_cleanup(2); assumption?))
  have p9:
    "(\<forall>e. makedirs_exist_ok (files w) ''temp_processing'' = Inl e \<longrightarrow>
       fst (process_youtube_video_vocal_only ydl sep w url d n) = n
       \<and> error_line url e \<in> set (stdout (snd (process_youtube_video_vocal_only ydl sep w url d n))))"
    by ((intro allI impI conjI)?; (elim conjE)?; (rule driver_caught_vocal_only[OF try_makedirs_fails(2)]; assumption?))
  have p10:
    "(\<forall>fs1 e w2.
       makedirs_exist_ok (files w) ''temp_processing'' = Inr fs1
       \<and> download_audio ydl (world_started w fs1 url) url (path_join ''temp_processing'' ''audio'') = (Inl e, w2) \<longrightarrow>
       fst (process_youtube_video_vocal_only ydl sep w url d n) = n
       \<and> error_line url e \<in> set (stdout (snd (process_youtube_video_vocal_only ydl sep w url d n))))"
    by ((intro allI impI conjI)?; (elim conjE)?; (rule driver_caught_vocal_only[OF try_download_fails(2)]; assumption?))
  have p11:
    "(\<forall>fs1 mp3 w2 e w4.
       makedirs_exist_ok (files w) ''temp_processing'' = Inr fs1
       \<and> download_audio ydl (world_started w fs1 url) url (path_join ''temp_processing'' ''audio'') = (Inr mp3, w2)
       \<and> extract_vocals_vocal_only sep (world_downloaded w2) mp3 (path_join ''temp_processing'' ''vocals'') = (Inl e, w4) \<longrightarrow>
       fst (process_youtube_video_vocal_only ydl sep w url d n) = n
       \<and> error_line url e \<in> set (stdout (snd (process_youtube_video_vocal_only ydl sep w url d n))))"
    by ((intro allI impI conjI)?; (elim conjE)?; (rule driver_caught_vocal_only[OF try_extract_fails_vocal_only]; assumption?))
  have p12:
    "(\<forall>fs1 mp3 w2 vp w4 e w6.
       makedirs_exist_ok (files w) ''temp_processing'' = Inr fs1
       \<and> download_audio ydl (world_started w fs1 url) url (path_join ''temp_processing'' ''audio'') = (Inr mp3, w2)
       \<and> extract_vocals_vocal_only sep (world_downloaded w2) mp3 (path_join ''temp_processing'' ''vocals'') = (Inr vp, w4)
       \<and> split_wav_file_vocal_only (world_extracted ''30'' w4 vp) vp d 30 n = (Inl e, w6) \<longrightarrow>
       fst (process_youtube_video_vocal_only ydl sep w url d n) = n
       \<and> error_line url e \<in> set (stdout (snd (process_youtube_video_vocal_only ydl sep w url d n))))"
    by ((intro allI impI conjI)?; (elim conjE)?; (rule driver_caught_vocal_only[OF try_split_fails_vocal_only]; assumption?))
  have p13:
    "(\<forall>e w1. process_youtube_video_try_vocal_only ydl sep w url d n = (Inl e, w1) \<longrightarrow>
       fst (process_youtube_video_vocal_only ydl sep w url d n) = n
       \<and> error_line url e \<in> set (stdout (snd (process_youtube_video_vocal_only ydl sep w url d n))))"
    by ((intro allI impI conjI)?; (elim conjE)?; (rule driver_caught_vocal_only; assumption?))
  have p14:
    "(\<forall>n' w1. process_youtube_video_try_vocal_only ydl sep w url d n = (Inr n', w1) \<longrightarrow>
       fst (process_youtube_video_vocal_only ydl sep w url d n) = n')"
    by ((intro allI impI conjI)?; (elim conjE)?; (rule driver_returns(2); assumption?))
  have p15:
    "\<not> isdir (files (snd (process_youtube_video_vocal_only ydl sep w url d n))) ''temp_processing''"
    by ((intro allI impI conjI)?; (elim conjE)?; (rule driver_cleanup_vocal_only(1); assumption?))
  have p16:
    "(\<forall>q. isdir (files (snd (process_youtube_video_try_vocal_only ydl sep w url d n))) ''temp_processing''
       \<and> under ''temp_processing'' q \<longrightarrow>
       \<not> path_exists (files (snd (process_youtube_video_vocal_only ydl sep w url d n))) q)"
    by ((intro allI impI conjI)?; (elim conjE)?; (rule driver_cleanup_vocal_only(2); assumption?))
  show ?thesis
    by (intro conjI) (fact p1, fact p2, fact p3, fact p4, fact p5, fact p6, fact p7, fact p8, fact p9, fact p10, fact p11, fact p12, fact p13, fact p14, fact p15, fact p16)
qed

theorem driver_failure_and_cleanup_witness:
  "fst (process_youtube_video
          (\<lambda>url d w. (Some (ExternalError ''HTTP Error 404: Not Found''), w))
          (\<lambda>i d w. (None, w))
          \<lparr>files = ([] :: unit content fs), stdout = []\<rparr> ''http://x'' ''out'' 7) = 7
   \<and> ''  An error occurred while processing http://x: HTTP Error 404: Not Found''
       \<in> set (stdout (snd (process_youtube_video
          (\<lambda>url d w. (Some (ExternalError ''HTTP Error 404: Not Found''), w))
          (\<lambda>i d w. (None, w))
          \<lparr>files = ([] :: unit content fs), stdout = []\<rparr> ''http://x'' ''out'' 7)))
   \<and> \<not> isdir (files (snd (process_youtube_video
          (\<lambda>url d w. (Some (ExternalError ''HTTP Error 404: Not Found''), w))
          (\<lambda>i d w. (None, w))
          \<lparr>files = ([] :: unit content fs), stdout = []\<rparr> ''http://x'' ''out'' 7))) ''temp_processing''"
proof -
  let ?ydl = "\<lambda>(url::string) (d::path) (w::unit world). (Some (ExternalError ''HTTP Error 404: Not Found''), w)"
  let ?sep = "\<lambda>(i::path) (d::path) (w::unit world). (None :: error option, w)"
  let ?w = "\<lparr>files = ([] :: unit content fs), stdout = []\<rparr>"
  let ?fs1 = "[(''temp_processing'', Dir)] :: unit content fs"
  let ?dl = "download_audio ?ydl (world_started ?w ?fs1 ''http://x'')
       ''http://x'' (path_join ''temp_processing'' ''audio'')"
  have h1: "makedirs_exist_ok (files ?w) ''temp_processing'' = Inr ?fs1" by code_simp
  have "fst ?dl = Inl (ExternalError ''HTTP Error 404: Not Found'')" by code_simp
  then have h2: "?dl = (Inl (ExternalError ''HTTP Error 404: Not Found''), snd ?dl)"
    by (simp add: prod_eq_iff)
  have l: "error_line ''http://x'' (ExternalError ''HTTP Error 404: Not Found'')
        = ''  An error occurred while processing http://x: HTTP Error 404: Not Found''"
    by code_simp
  note t = driver_failure_and_cleanup[where w="?w" and ydl="?ydl" and url="''http://x''" and sep="?sep"
      and d="''out''" and n=7]
  note p2 = t[THEN conjunct2, THEN conjunct1, rule_format, OF conjI, OF h1 h2]
  have A: "fst (process_youtube_video ?ydl ?sep ?w ''http://x'' ''out'' 7) = 7"
    using p2 by (rule conjunct1)
  have B: "''  An error occurred while processing http://x: HTTP Error 404: Not Found''
           \<in> set (stdout (snd (process_youtube_video ?ydl ?sep ?w ''http://x'' ''out'' 7)))"
    using p2[THEN conjunct2] unfolding l .
  have C: "\<not> isdir (files (snd (process_youtube_video ?ydl ?sep ?w ''http://x'' ''out'' 7))) ''temp_processing''"
    using t[THEN conjunct2, THEN conjunct2, THEN conjunct2, THEN conjunct2, THEN conjunct2,
            THEN conjunct2, THEN conjunct1] .
  from A B C show ?thesis by blast
qed

end
